theory Spec2Isabelle
  imports Main
begin

section \<open>Strings and tag-name syntax (custom-elements.js, lines 66-69)\<close>

text \<open>
  A JavaScript string is modelled as a list of 8-bit code units (the Latin-1 range).
  \<open>toLowerCase\<close> folds the capital letters of that range: A-Z, and the accented
  capitals 192-222 except the multiplication sign 215; each is 32 below its small letter,
  which is bit 5 of the code unit.
\<close>

definition isUpperCaseUnit :: "nat \<Rightarrow> bool" where
  "isUpperCaseUnit n = ((65 \<le> n \<and> n \<le> 90) \<or> (192 \<le> n \<and> n \<le> 222 \<and> n \<noteq> 215))"

fun toLowerChar :: "char \<Rightarrow> char" where
  "toLowerChar (Char b0 b1 b2 b3 b4 b5 b6 b7) =
     (if isUpperCaseUnit (of_char (Char b0 b1 b2 b3 b4 b5 b6 b7))
      then Char b0 b1 b2 b3 b4 True b6 b7
      else Char b0 b1 b2 b3 b4 b5 b6 b7)"

definition toLowerCase :: "string \<Rightarrow> string" where
  "toLowerCase s = map toLowerChar s"

text \<open>\<open>t.includes(needle)\<close>: the needle occurs at some position of \<open>t\<close>.\<close>

fun string_includes :: "string \<Rightarrow> string \<Rightarrow> bool" where
  "string_includes [] needle = (needle = [])"
| "string_includes (c # cs) needle =
     (take (length needle) (c # cs) = needle \<or> string_includes cs needle)"

text \<open>
  The regular expression \<open>/^[a-z][.0-9_a-z-]*$/\<close>, one function for each of its parts:
  the class \<open>[a-z]\<close>, the class \<open>[.0-9_a-z-]\<close>, the starred class up to the end of
  the input, and the whole expression (there is no flag, so \<open>^\<close> and \<open>$\<close> are the two
  ends of the string).
\<close>

definition class_a_z :: "char \<Rightarrow> bool" where
  "class_a_z c = (97 \<le> (of_char c :: nat) \<and> (of_char c :: nat) \<le> 122)"

definition class_0_9 :: "char \<Rightarrow> bool" where
  "class_0_9 c = (48 \<le> (of_char c :: nat) \<and> (of_char c :: nat) \<le> 57)"

definition class_name_char :: "char \<Rightarrow> bool" where
  "class_name_char c =
     (c = CHR ''.'' \<or> class_0_9 c \<or> c = CHR ''_'' \<or> class_a_z c \<or> c = CHR ''-'')"

fun match_star_to_end :: "string \<Rightarrow> bool" where
  "match_star_to_end [] = True"
| "match_star_to_end (c # cs) = (class_name_char c \<and> match_star_to_end cs)"

fun regex_test :: "string \<Rightarrow> bool" where
  "regex_test [] = False"
| "regex_test (c # cs) = (class_a_z c \<and> match_star_to_end cs)"

definition isPotentialCustomElementTag :: "string \<Rightarrow> bool" where
  "isPotentialCustomElementTag tagName =
     (let t = toLowerCase tagName in string_includes t ''-'' \<and> regex_test t)"

text \<open>
  The naming rules the specification refers to are those of the registry, which the HTML
  Standard gives over code points: a potential custom element name starts with a small
  letter a-z, continues with name characters and contains a hyphen; a valid custom
  element name is a potential one that is none of eight reserved names.
\<close>

definition pcen_char :: "nat \<Rightarrow> bool" where
  "pcen_char n =
     (n = 45 \<or> n = 46 \<or> (48 \<le> n \<and> n \<le> 57) \<or> n = 95 \<or> (97 \<le> n \<and> n \<le> 122) \<or> n = 183 \<or>
      (192 \<le> n \<and> n \<le> 214) \<or> (216 \<le> n \<and> n \<le> 246) \<or> (248 \<le> n \<and> n \<le> 893) \<or>
      (895 \<le> n \<and> n \<le> 8191) \<or> (8204 \<le> n \<and> n \<le> 8205) \<or> (8255 \<le> n \<and> n \<le> 8256) \<or>
      (8304 \<le> n \<and> n \<le> 8591) \<or> (11264 \<le> n \<and> n \<le> 12271) \<or> (12289 \<le> n \<and> n \<le> 55295) \<or>
      (63744 \<le> n \<and> n \<le> 64975) \<or> (65008 \<le> n \<and> n \<le> 65533) \<or> (65536 \<le> n \<and> n \<le> 983039))"

definition potential_custom_element_name :: "nat list \<Rightarrow> bool" where
  "potential_custom_element_name ps =
     (ps \<noteq> [] \<and> 97 \<le> hd ps \<and> hd ps \<le> 122 \<and> list_all pcen_char (tl ps) \<and> 45 \<in> set ps)"

definition reserved_names :: "string list" where
  "reserved_names = [''annotation-xml'', ''color-profile'', ''font-face'', ''font-face-src'',
     ''font-face-uri'', ''font-face-format'', ''font-face-name'', ''missing-glyph'']"

definition code_points :: "string \<Rightarrow> nat list" where
  "code_points t = map of_char t"

definition valid_custom_element_name :: "string \<Rightarrow> bool" where
  "valid_custom_element_name t =
     (potential_custom_element_name (code_points t) \<and> t \<notin> set reserved_names)"

definition ascii_only :: "string \<Rightarrow> bool" where
  "ascii_only t = list_all (\<lambda>n. n < 128) (code_points t)"

subsection \<open>Tag-name syntax: proofs\<close>

lemma includes_single: "string_includes t [c] = (c \<in> set t)"
  by (induction t) auto

lemma match_star_to_end_iff: "match_star_to_end cs = list_all class_name_char cs"
  by (induction cs) auto

lemma char_eq_code: "(c = d) = ((of_char c :: nat) = of_char d)"
  by simp

lemma class_name_char_code:
  "class_name_char c = (pcen_char (of_char c) \<and> (of_char c :: nat) < 128)"
proof -
  define n where "n = (of_char c :: nat)"
  have a: "(c = CHR ''.'') = (n = 46)" "(c = CHR ''_'') = (n = 95)" "(c = CHR ''-'') = (n = 45)"
    using char_eq_code [of c "CHR ''.''"] char_eq_code [of c "CHR ''_''"]
      char_eq_code [of c "CHR ''-''"] by (simp_all add: n_def)
  have "class_name_char c =
      (n = 46 \<or> (48 \<le> n \<and> n \<le> 57) \<or> n = 95 \<or> (97 \<le> n \<and> n \<le> 122) \<or> n = 45)"
    unfolding class_name_char_def class_a_z_def class_0_9_def a n_def [symmetric] ..
  also have "\<dots> = (pcen_char n \<and> n < 128)"
    unfolding pcen_char_def by arith
  finally show ?thesis
    unfolding n_def .
qed

lemma list_all_name_chars:
  "list_all class_name_char t = (list_all pcen_char (code_points t) \<and> ascii_only t)"
  by (induction t) (auto simp: class_name_char_code code_points_def ascii_only_def)

lemma hyphen_char: "(c = CHR ''-'') = ((of_char c :: nat) = 45)"
proof -
  have "(of_char (CHR ''-'') :: nat) = 45"
    by simp
  then show ?thesis
    using char_eq_code [of c "CHR ''-''"] by (simp only:)
qed

lemma hyphen_code: "(CHR ''-'' \<in> set t) = (45 \<in> set (code_points t))"
proof (induction t)
  case Nil
  then show ?case by (simp add: code_points_def)
next
  case (Cons c t)
  have "(CHR ''-'' = c) = ((45::nat) = of_char c)"
    using hyphen_char [of c] by (simp only: eq_commute)
  then show ?case
    using Cons by (simp only: code_points_def list.map list.set insert_iff)
qed

lemma regex_test_code:
  "regex_test t =
     (t \<noteq> [] \<and> 97 \<le> hd (code_points t) \<and> hd (code_points t) \<le> 122 \<and>
      list_all pcen_char (tl (code_points t)) \<and> ascii_only t)"
proof (cases t)
  case Nil
  then show ?thesis by simp
next
  case (Cons c cs)
  have "class_a_z c \<Longrightarrow> (of_char c :: nat) < 128"
    by (simp add: class_a_z_def)
  then show ?thesis
    unfolding Cons
    by (auto simp: match_star_to_end_iff list_all_name_chars class_a_z_def code_points_def
        ascii_only_def)
qed

text \<open>
  Claim C6, as amended. \<open>isPotentialCustomElementTag\<close> accepts a string exactly when its
  lowercase form has the syntax of a potential custom element name and consists of ASCII
  characters only. So every accepted name has that syntax, a name with a name character
  outside ASCII is rejected, and the reserved names are accepted (their refusal is left to
  the registry).
\<close>

theorem isPotentialCustomElementTag_ascii_names:
  "isPotentialCustomElementTag s =
     (potential_custom_element_name (code_points (toLowerCase s)) \<and> ascii_only (toLowerCase s))"
proof -
  define t where "t = toLowerCase s"
  have e: "(code_points t = []) = (t = [])"
    by (simp add: code_points_def)
  have "isPotentialCustomElementTag s = (45 \<in> set (code_points t) \<and> regex_test t)"
    unfolding isPotentialCustomElementTag_def Let_def t_def [symmetric] includes_single hyphen_code ..
  also have "\<dots> = (potential_custom_element_name (code_points t) \<and> ascii_only t)"
    unfolding regex_test_code potential_custom_element_name_def e by blast
  finally show ?thesis
    unfolding t_def .
qed

lemma lower_a_hyphen_e_acute:
  "toLowerCase [CHR ''a'', CHR ''-'', CHR 0xE9] = [CHR ''a'', CHR ''-'', CHR 0xE9]"
  by (simp add: toLowerCase_def isUpperCaseUnit_def)

text \<open>
  Claim C6 as stated fails in both directions: \<open>a-\<close> followed by the letter e with
  acute accent (code point 233) is a valid custom element name that the function
  rejects, and \<open>font-face\<close> is accepted although it is no valid custom element name.
\<close>

theorem valid_name_rejected_counterexample:
  "valid_custom_element_name [CHR ''a'', CHR ''-'', CHR 0xE9] \<and>
   \<not> isPotentialCustomElementTag [CHR ''a'', CHR ''-'', CHR 0xE9] \<and>
   isPotentialCustomElementTag ''font-face'' \<and> \<not> valid_custom_element_name ''font-face''"
proof (intro conjI)
  show "valid_custom_element_name [CHR ''a'', CHR ''-'', CHR 0xE9]"
    by (simp add: valid_custom_element_name_def potential_custom_element_name_def pcen_char_def
        code_points_def reserved_names_def)
  show "\<not> isPotentialCustomElementTag [CHR ''a'', CHR ''-'', CHR 0xE9]"
    by (simp add: isPotentialCustomElementTag_def lower_a_hyphen_e_acute class_name_char_def
        class_a_z_def class_0_9_def)
  show "isPotentialCustomElementTag ''font-face''"
    by (simp add: isPotentialCustomElementTag_def toLowerCase_def isUpperCaseUnit_def
        class_name_char_def class_a_z_def class_0_9_def)
  show "\<not> valid_custom_element_name ''font-face''"
    by (simp add: valid_custom_element_name_def reserved_names_def)
qed

section \<open>Resolver composition (custom-elements.js, lines 408-416)\<close>

text \<open>
  A resolver is called with the tag name and the element. The call throws at once, or
  gives a promise that rejects, or one that fulfils with \<open>false\<close> or with some other
  value; \<open>await\<close> on a plain value fulfils with that value.
\<close>

datatype js_error = JsError string

datatype 'r decision = JsFalse | NotFalse 'r

datatype 'r resolver_outcome = SyncThrow js_error | Rejects js_error | Fulfils "'r decision"

type_synonym ('e, 'r) resolver = "string \<Rightarrow> 'e \<Rightarrow> 'r resolver_outcome"

text \<open>
  The loop of the composed resolver. The second component counts the resolvers that were
  called: they are called in list order, so the count \<open>n\<close> says that exactly the first
  \<open>n\<close> resolvers of the list were called. The composed resolver is an \<open>async\<close>
  function, so a resolver that throws makes its promise reject.
\<close>

fun compose_run :: "('e, 'r) resolver list \<Rightarrow> string \<Rightarrow> 'e \<Rightarrow> 'r resolver_outcome \<times> nat" where
  "compose_run [] tagName el = (Fulfils JsFalse, 0)"
| "compose_run (r # rs) tagName el =
     (case r tagName el of
        SyncThrow err \<Rightarrow> (Rejects err, 1)
      | Rejects err \<Rightarrow> (Rejects err, 1)
      | Fulfils JsFalse \<Rightarrow> (let (out, n) = compose_run rs tagName el in (out, Suc n))
      | Fulfils (NotFalse v) \<Rightarrow> (Fulfils (NotFalse v), 1))"

definition composeOnDemandCustomElementResolvers :: "('e, 'r) resolver list \<Rightarrow> ('e, 'r) resolver" where
  "composeOnDemandCustomElementResolvers resolvers = (\<lambda>tagName el. fst (compose_run resolvers tagName el))"

subsection \<open>Resolver composition: proofs\<close>

lemma compose_run_all_false:
  "list_all (\<lambda>r. r t e = Fulfils JsFalse) rs \<Longrightarrow> compose_run rs t e = (Fulfils JsFalse, length rs)"
  by (induction rs) auto

lemma compose_run_first:
  "list_all (\<lambda>r. r t e = Fulfils JsFalse) pre \<Longrightarrow> r t e = Fulfils (NotFalse v) \<Longrightarrow>
   compose_run (pre @ r # post) t e = (Fulfils (NotFalse v), Suc (length pre))"
  by (induction pre) auto

lemma compose_run_throw:
  "list_all (\<lambda>r. r t e = Fulfils JsFalse) pre \<Longrightarrow> r t e = SyncThrow err \<or> r t e = Rejects err \<Longrightarrow>
   compose_run (pre @ r # post) t e = (Rejects err, Suc (length pre))"
  by (induction pre) auto

text \<open>
  Claim C4. The composed resolver tries the resolvers in list order. When the resolvers
  before \<open>r\<close> all give \<open>false\<close> and \<open>r\<close> gives a value that is not \<open>false\<close>, the
  composite gives that value and has called  \<open>r\<close> and the resolvers before it only,
  none of the later ones. When every resolver gives \<open>false\<close>, the composite gives
  \<open>false\<close> after calling all of them.
\<close>

theorem compose_first_not_false:
  "(list_all (\<lambda>r. r t e = Fulfils JsFalse) pre \<and> r t e = Fulfils (NotFalse v) \<longrightarrow>
      composeOnDemandCustomElementResolvers (pre @ r # post) t e = Fulfils (NotFalse v) \<and>
      snd (compose_run (pre @ r # post) t e) = Suc (length pre)) \<and>
   (list_all (\<lambda>r. r t e = Fulfils JsFalse) rs \<longrightarrow>
      composeOnDemandCustomElementResolvers rs t e = Fulfils JsFalse \<and>
      snd (compose_run rs t e) = length rs)"
  by (simp add: composeOnDemandCustomElementResolvers_def compose_run_all_false compose_run_first)

theorem compose_first_not_false_witness:
  "composeOnDemandCustomElementResolvers
     [\<lambda>t e. Fulfils JsFalse, \<lambda>t e. Fulfils (NotFalse ''B''), \<lambda>t e. Fulfils (NotFalse ''C'')]
     ''my-tag'' () = Fulfils (NotFalse ''B'') \<and>
   snd (compose_run
     [\<lambda>t e. Fulfils JsFalse, \<lambda>t e. Fulfils (NotFalse ''B''), \<lambda>t e. Fulfils (NotFalse ''C'')]
     ''my-tag'' ()) = 2 \<and>
   composeOnDemandCustomElementResolvers
     [\<lambda>t e. Fulfils (NotFalse ''A''), \<lambda>t e. Fulfils (NotFalse ''B'')] ''my-tag'' () =
     Fulfils (NotFalse ''A'') \<and>
   composeOnDemandCustomElementResolvers
     [\<lambda>t e. Fulfils JsFalse, \<lambda>t e. (Fulfils JsFalse :: string resolver_outcome)] ''my-tag'' () =
     Fulfils JsFalse"
  using compose_first_not_false [of "''my-tag''" "()" "[\<lambda>t e. Fulfils JsFalse]"
      "\<lambda>t e. Fulfils (NotFalse ''B'')" "''B''" "[\<lambda>t e. Fulfils (NotFalse ''C'')]"
      "[\<lambda>t e. Fulfils JsFalse, \<lambda>t e. Fulfils JsFalse]"]
    compose_first_not_false [of "''my-tag''" "()" "[]"
      "\<lambda>t e. Fulfils (NotFalse ''A'')" "''A''" "[\<lambda>t e. Fulfils (NotFalse ''B'')]" "[]"]
  by (simp add: composeOnDemandCustomElementResolvers_def)

section \<open>The document tree\<close>

text \<open>
  A DOM node is a tree: an element with its tag name (as \<open>el.tagName\<close> reports it),
  its attributes and its child nodes, a text node, a document fragment or a document.
\<close>

datatype node =
    Element string "(string \<times> string) list" "node list"
  | TextNode string
  | DocumentFragment "node list"
  | Document "node list"

fun isElement :: "node \<Rightarrow> bool" where
  "isElement (Element t as cs) = True"
| "isElement n = False"

fun tagName :: "node \<Rightarrow> string" where
  "tagName (Element t as cs) = t"
| "tagName n = []"

fun childNodes :: "node \<Rightarrow> node list" where
  "childNodes (Element t as cs) = cs"
| "childNodes (TextNode d) = []"
| "childNodes (DocumentFragment cs) = cs"
| "childNodes (Document cs) = cs"

text \<open>The elements of a subtree in tree order (the node itself first, when it is an element).\<close>

fun subtree_elements :: "node \<Rightarrow> node list" where
  "subtree_elements (Element t as cs) = Element t as cs # concat (map subtree_elements cs)"
| "subtree_elements (TextNode d) = []"
| "subtree_elements (DocumentFragment cs) = concat (map subtree_elements cs)"
| "subtree_elements (Document cs) = concat (map subtree_elements cs)"

text \<open>\<open>root.querySelectorAll("*")\<close>: every element below the root, in document order.\<close>

definition querySelectorAll_star :: "node \<Rightarrow> node list" where
  "querySelectorAll_star root = concat (map subtree_elements (childNodes root))"

definition firstElementChild :: "node \<Rightarrow> node option" where
  "firstElementChild n = find isElement (childNodes n)"

section \<open>The on-demand loader (custom-elements.js, lines 86-395)\<close>

subsection \<open>Resolutions, the registry and the host\<close>

datatype url_like = UrlString string | UrlObject string

datatype js_export = ElementConstructor string | OtherExport

type_synonym js_module = "(string \<times> js_export) list"

datatype export_name =
    ExportKey string
  | ExportFunction "js_module \<Rightarrow> js_error + js_export option"

record resolution =
  importFromUrl :: "url_like option"
  importFromTmpl :: "string option"
  defineAs :: "string option"
  exportName :: "export_name option"
  waitForDefinition :: bool

text \<open>
  A class in the registry of custom elements: the class the loader generates from a
  template (with the markup it captured), or a constructor that a module exports or
  registers, known by its identity.
\<close>

datatype ce_class = TemplateBackedElement "node list" | ModuleClass string

datatype import_outcome =
    ImportRejects js_error
  | ImportFulfils js_module "(string \<times> ce_class) list"

datatype element_by_id = HTMLTemplateElement node | OtherElement node

text \<open>
  What the loader is given and what the host provides: the options of the loader
  (\<open>resolver\<close>, \<open>deepScan\<close>, \<open>observeMutations\<close>), the document, the lookup of an element
  by id (for a template element, its \<open>content\<close> fragment), the resolution of a URL string
  against the module's own URL (\<open>new URL\<close> throws on a string that is no URL), the dynamic
  \<open>import\<close> of a module (its exports and the definitions the module registers itself), and
  the names that the registry itself refuses in \<open>define\<close> and \<open>whenDefined\<close>. The \<open>log\<close>
  sink is taken to return normally; every call to it is recorded.
\<close>

record host =
  resolver :: "(node, resolution) resolver"
  deepScan :: bool
  observeMutations :: bool
  document :: node
  getElementById :: "string \<Rightarrow> element_by_id option"
  resolveUrl :: "string \<Rightarrow> js_error + string"
  importModule :: "string \<Rightarrow> import_outcome"
  refusedName :: "string \<Rightarrow> js_error option"

datatype level = Debug | Warn | Error

text \<open>
  Besides the four collections of the loader, the state holds the registry of custom
  elements, the modules that have been evaluated (each with the exception its evaluation
  ended with, if any), the calls to the log sink (level, message, encountered tag), and a trace of
  observations, each with the number of the asynchronous call that made it: when a scan
  is entered, when the check of an element begins and ends, when the resolver or
  \<open>import\<close> is called, and when a resolution attempt (the body of \<open>applyResolution\<close>
  past its guard) begins and ends.
\<close>

datatype event =
    ScanCalled node
  | CheckBegin node
  | CheckEnd node
  | ResolverCalled string
  | AttemptBegin string
  | AttemptEnd string
  | ImportCalled string

record loader_state =
  pending :: "string set"
  loaded :: "string set"
  failed :: "string \<rightharpoonup> js_error"
  skipped :: "string set"
  registry :: "(string \<times> ce_class) list"
  modules :: "string \<rightharpoonup> js_error option"
  logs :: "(level \<times> string \<times> string) list"
  events :: "(nat \<times> event) list"
  cur :: nat

definition log :: "level \<Rightarrow> string \<Rightarrow> string \<Rightarrow> loader_state \<Rightarrow> loader_state" where
  "log lvl message encounteredTag s = s\<lparr>logs := logs s @ [(lvl, message, encounteredTag)]\<rparr>"

definition emit :: "event \<Rightarrow> loader_state \<Rightarrow> loader_state" where
  "emit ev s = s\<lparr>events := events s @ [(cur s, ev)]\<rparr>"

definition customElements_get :: "loader_state \<Rightarrow> string \<Rightarrow> ce_class option" where
  "customElements_get s name = map_of (registry s) name"

text \<open>
  \<open>customElements.define\<close> throws for a name the registry refuses, for a name that is
  already defined and for a constructor that is already in use; the class generated from a
  template is a new class at every call.
\<close>

fun constructor_in_use :: "ce_class \<Rightarrow> (string \<times> ce_class) list \<Rightarrow> bool" where
  "constructor_in_use (ModuleClass c) reg = (ModuleClass c \<in> snd ` set reg)"
| "constructor_in_use (TemplateBackedElement html) reg = False"

definition customElements_define ::
  "host \<Rightarrow> string \<Rightarrow> ce_class \<Rightarrow> loader_state \<Rightarrow> js_error + loader_state" where
  "customElements_define h name cls s =
     (case refusedName h name of
        Some err \<Rightarrow> Inl err
      | None \<Rightarrow>
          if customElements_get s name \<noteq> None then Inl (JsError ''NotSupportedError'')
          else if constructor_in_use cls (registry s) then Inl (JsError ''NotSupportedError'')
          else Inr (s\<lparr>registry := (name, cls) # registry s\<rparr>))"

text \<open>
  \<open>customElements.whenDefined(name)\<close>: rejected for a name the registry refuses,
  fulfilled once the name is defined, and not settled before.
\<close>

definition whenDefined :: "host \<Rightarrow> loader_state \<Rightarrow> string \<Rightarrow> js_error option option" where
  "whenDefined h s name =
     (case refusedName h name of
        Some err \<Rightarrow> Some (Some err)
      | None \<Rightarrow> if customElements_get s name \<noteq> None then Some None else None)"

fun isHTMLElementConstructor :: "js_export option \<Rightarrow> bool" where
  "isHTMLElementConstructor (Some (ElementConstructor c)) = True"
| "isHTMLElementConstructor x = False"

fun normalizeToAbsHref :: "host \<Rightarrow> url_like \<Rightarrow> js_error + string" where
  "normalizeToAbsHref h (UrlObject href) = Inr href"
| "normalizeToAbsHref h (UrlString u) = resolveUrl h u"

text \<open>Truthiness of the two import fields: present, and for a string not empty.\<close>

fun truthy_string :: "string option \<Rightarrow> bool" where
  "truthy_string (Some s) = (s \<noteq> [])"
| "truthy_string None = False"

fun truthy_url :: "url_like option \<Rightarrow> bool" where
  "truthy_url (Some (UrlString s)) = (s \<noteq> [])"
| "truthy_url (Some (UrlObject href)) = True"
| "truthy_url None = False"

subsection \<open>Asynchronous calls\<close>

text \<open>
  An \<open>async\<close> function runs until its first \<open>await\<close> and is resumed there later;
  between two awaits it runs without interruption. A suspended call is the stack of its
  frames, innermost first: one frame for each function of the call chain, naming the
  \<open>await\<close> at which that function stands and the variables it needs afterwards. With the
  stack comes the completion of the callee the top frame awaits, when that callee has
  already finished: \<open>None\<close> for a normal return, \<open>Some err\<close> for a throw. A call with
  no frame left has finished, with that completion.
\<close>

datatype frame =
    ImportFromUrl_import string resolution string string
  | ImportFromUrl_whenDefined string
  | ApplyResolution_whenDefined string string
  | ApplyResolution_importFromUrl string
  | MaybeLoad_resolver node string "js_error + resolution decision"
  | MaybeLoad_applyResolution node
  | Scan_root node
  | Scan_loop "node list"
  | Preload_applyResolution

type_synonym completion = "js_error option"

type_synonym suspension = "frame list \<times> completion"

text \<open>\<open>await callee(...)\<close>: the caller stands at its frame below the frames of the callee.\<close>

definition await_call :: "frame \<Rightarrow> loader_state \<times> suspension \<Rightarrow> loader_state \<times> suspension" where
  "await_call f r = (case r of (s, (fs, c)) \<Rightarrow> (s, (fs @ [f], c)))"

definition skipped_add :: "string \<Rightarrow> loader_state \<Rightarrow> loader_state" where
  "skipped_add t s = s\<lparr>skipped := insert t (skipped s)\<rparr>"

definition loaded_add :: "string \<Rightarrow> loader_state \<Rightarrow> loader_state" where
  "loaded_add t s = s\<lparr>loaded := insert t (loaded s)\<rparr>"

definition failed_set :: "string \<Rightarrow> js_error \<Rightarrow> loader_state \<Rightarrow> loader_state" where
  "failed_set t err s = s\<lparr>failed := (failed s)(t \<mapsto> err)\<rparr>"

subsection \<open>defineFromTemplate (lines 130-184)\<close>

definition defineFromTemplate ::
  "host \<Rightarrow> string \<Rightarrow> resolution \<Rightarrow> loader_state \<Rightarrow> loader_state \<times> completion" where
  "defineFromTemplate h encounteredTag res s =
     (let tmplId = (case importFromTmpl res of Some i \<Rightarrow> i | None \<Rightarrow> []) in
      case getElementById h tmplId of
        Some (HTMLTemplateElement frag) \<Rightarrow>
          (case firstElementChild frag of
             None \<Rightarrow>
               (skipped_add encounteredTag
                  (log Warn ''Template is empty or has no element root'' encounteredTag s), None)
           | Some root \<Rightarrow>
               (let inferredTag = toLowerCase (tagName root);
                    defineAs' = toLowerCase (case defineAs res of Some d \<Rightarrow> d | None \<Rightarrow> inferredTag)
                in
                  if \<not> isPotentialCustomElementTag defineAs' then
                    (skipped_add encounteredTag
                       (log Warn ''Refusing to define from template: invalid custom element tag''
                          encounteredTag s), None)
                  else if customElements_get s defineAs' \<noteq> None then
                    (loaded_add encounteredTag s, None)
                  else
                    (case customElements_define h defineAs'
                            (TemplateBackedElement (childNodes root)) s of
                       Inl err \<Rightarrow> (s, Some err)
                     | Inr s' \<Rightarrow> (loaded_add encounteredTag s', None))))
      | _ \<Rightarrow>
          (skipped_add encounteredTag
             (log Warn ''Template resolution requested but template not found'' encounteredTag s),
           None))"

subsection \<open>importFromUrl (lines 192-255)\<close>

text \<open>The part up to \<open>await import(href)\<close>.\<close>

definition importFromUrl_start ::
  "host \<Rightarrow> string \<Rightarrow> resolution \<Rightarrow> loader_state \<Rightarrow> loader_state \<times> suspension" where
  "importFromUrl_start h encounteredTag res s =
     (let defineAs' = toLowerCase (case defineAs res of Some d \<Rightarrow> d | None \<Rightarrow> encounteredTag) in
        if \<not> isPotentialCustomElementTag defineAs' then
          (skipped_add encounteredTag
             (log Warn ''Refusing to load: not a valid custom element tag name'' encounteredTag s),
           ([], None))
        else if customElements_get s defineAs' \<noteq> None then
          (loaded_add encounteredTag s, ([], None))
        else
          (case (case importFromUrl res of
                   Some u \<Rightarrow> normalizeToAbsHref h u
                 | None \<Rightarrow> resolveUrl h ''undefined'') of
             Inl err \<Rightarrow> (s, ([], Some err))
           | Inr href \<Rightarrow>
               (emit (ImportCalled href)
                  (log Debug ''Importing custom element module'' encounteredTag s),
                ([ImportFromUrl_import encounteredTag res defineAs' href], None))))"

fun select_export :: "export_name \<Rightarrow> js_module \<Rightarrow> js_error + js_export option" where
  "select_export (ExportFunction f) m = f m"
| "select_export (ExportKey k) m =
     (if k = ''default'' then Inr (map_of m ''default'') else Inr (map_of m k))"

fun class_of_export :: "js_export option \<Rightarrow> ce_class" where
  "class_of_export (Some (ElementConstructor c)) = ModuleClass c"
| "class_of_export x = ModuleClass []"

text \<open>
  A module is evaluated once, at its first import: it registers its definitions with
  \<open>customElements.define\<close>, in order. A \<open>define\<close> that throws ends the evaluation: the
  import is rejected with that exception, and so is every later import of the module,
  while a module that has been evaluated is not evaluated again.
\<close>

fun define_all :: "host \<Rightarrow> (string \<times> ce_class) list \<Rightarrow> loader_state \<Rightarrow> loader_state \<times> completion" where
  "define_all h [] s = (s, None)"
| "define_all h ((name, cls) # defs) s =
     (case customElements_define h name cls s of
        Inl err \<Rightarrow> (s, Some err)
      | Inr s' \<Rightarrow> define_all h defs s')"

definition import_module :: "host \<Rightarrow> string \<Rightarrow> loader_state \<Rightarrow> loader_state \<times> (js_error + js_module)" where
  "import_module h href s =
     (case importModule h href of
        ImportRejects err \<Rightarrow> (s, Inl err)
      | ImportFulfils m defs \<Rightarrow>
          (case modules s href of
             Some None \<Rightarrow> (s, Inr m)
           | Some (Some err) \<Rightarrow> (s, Inl err)
           | None \<Rightarrow>
               (case define_all h defs s of
                  (s1, None) \<Rightarrow> (s1\<lparr>modules := (modules s1)(href \<mapsto> None)\<rparr>, Inr m)
                | (s1, Some err) \<Rightarrow> (s1\<lparr>modules := (modules s1)(href \<mapsto> Some err)\<rparr>, Inl err))))"

text \<open>The end of \<open>importFromUrl\<close> after a definition: the optional \<open>whenDefined\<close>.\<close>

definition wait_if_asked :: "resolution \<Rightarrow> string \<Rightarrow> loader_state \<Rightarrow> loader_state \<times> suspension" where
  "wait_if_asked res defineAs' s =
     (if waitForDefinition res then (s, ([ImportFromUrl_whenDefined defineAs'], None))
      else (s, ([], None)))"

text \<open>The part after \<open>await import(href)\<close>.\<close>

definition importFromUrl_resume ::
  "host \<Rightarrow> string \<Rightarrow> resolution \<Rightarrow> string \<Rightarrow> string \<Rightarrow> loader_state \<Rightarrow> loader_state \<times> suspension" where
  "importFromUrl_resume h encounteredTag res defineAs' href s =
     (case import_module h href s of
        (s1, Inl err) \<Rightarrow> (s1, ([], Some err))
      | (s1, Inr m) \<Rightarrow>
            (if customElements_get s1 defineAs' \<noteq> None then
               wait_if_asked res defineAs' (loaded_add encounteredTag s1)
             else
               (case exportName res of
                  None \<Rightarrow>
                    (loaded_add encounteredTag
                       (log Warn ''Module imported but element not defined (self-registering expected)''
                          encounteredTag s1),
                     ([], None))
                | Some en \<Rightarrow>
                    (case select_export en m of
                       Inl err \<Rightarrow> (s1, ([], Some err))
                     | Inr candidate \<Rightarrow>
                         if \<not> isHTMLElementConstructor candidate then
                           (loaded_add encounteredTag
                              (log Warn
                                 ''Export is not a valid HTMLElement subclass constructor; cannot define''
                                 encounteredTag s1),
                            ([], None))
                         else
                           (case customElements_define h defineAs' (class_of_export candidate) s1 of
                              Inl err \<Rightarrow> (s1, ([], Some err))
                            | Inr s2 \<Rightarrow> wait_if_asked res defineAs' (loaded_add encounteredTag s2))))))"

subsection \<open>applyResolution (lines 263-295)\<close>

text \<open>The \<open>catch\<close> and \<open>finally\<close> blocks, entered with the completion of the \<open>try\<close> block.\<close>

definition applyResolution_end :: "string \<Rightarrow> completion \<Rightarrow> loader_state \<Rightarrow> loader_state \<times> suspension" where
  "applyResolution_end encounteredTag thrown s =
     (let s1 = (case thrown of
                  None \<Rightarrow> s
                | Some err \<Rightarrow>
                    log Error ''Failed to resolve/import/define custom element'' encounteredTag
                      (failed_set encounteredTag err s))
      in (emit (AttemptEnd encounteredTag) (s1\<lparr>pending := pending s1 - {encounteredTag}\<rparr>),
          ([], None)))"

definition applyResolution_start ::
  "host \<Rightarrow> string \<Rightarrow> resolution \<Rightarrow> loader_state \<Rightarrow> loader_state \<times> suspension" where
  "applyResolution_start h encounteredTag res s =
     (if encounteredTag \<in> pending s then (s, ([], None))
      else
        (let s1 = emit (AttemptBegin encounteredTag)
                    (s\<lparr>pending := insert encounteredTag (pending s),
                       failed := (failed s)(encounteredTag := None)\<rparr>)
         in
           if truthy_string (importFromTmpl res) then
             (case defineFromTemplate h encounteredTag res s1 of
                (s2, Some err) \<Rightarrow> applyResolution_end encounteredTag (Some err) s2
              | (s2, None) \<Rightarrow>
                  if waitForDefinition res then
                    (let defineAs' =
                           toLowerCase (case defineAs res of Some d \<Rightarrow> d | None \<Rightarrow> encounteredTag)
                     in
                       if isPotentialCustomElementTag defineAs' then
                         (s2, ([ApplyResolution_whenDefined encounteredTag defineAs'], None))
                       else applyResolution_end encounteredTag None s2)
                  else applyResolution_end encounteredTag None s2)
           else if truthy_url (importFromUrl res) then
             await_call (ApplyResolution_importFromUrl encounteredTag)
               (importFromUrl_start h encounteredTag res s1)
           else
             applyResolution_end encounteredTag None
               (skipped_add encounteredTag
                  (log Warn
                     ''Resolver returned a resolution with neither importFromUrl nor importFromTmpl''
                     encounteredTag s1))))"

subsection \<open>maybeLoadForElement (lines 302-325)\<close>

definition maybeLoadForElement_start :: "host \<Rightarrow> node \<Rightarrow> loader_state \<Rightarrow> loader_state \<times> suspension" where
  "maybeLoadForElement_start h el s0 =
     (let s = emit (CheckBegin el) s0;
          encounteredTag = toLowerCase (tagName el)
      in
        if \<not> isPotentialCustomElementTag encounteredTag then (emit (CheckEnd el) s, ([], None))
        else if customElements_get s encounteredTag \<noteq> None then (emit (CheckEnd el) s, ([], None))
        else if encounteredTag \<in> loaded s \<or> failed s encounteredTag \<noteq> None
                \<or> encounteredTag \<in> skipped s
        then (emit (CheckEnd el) s, ([], None))
        else
          (case resolver h encounteredTag el of
             SyncThrow err \<Rightarrow>
               (emit (CheckEnd el)
                  (log Error ''Resolver threw; marking as failed'' encounteredTag
                     (failed_set encounteredTag err (emit (ResolverCalled encounteredTag) s))),
                ([], None))
           | Rejects err \<Rightarrow>
               (emit (ResolverCalled encounteredTag) s,
                ([MaybeLoad_resolver el encounteredTag (Inl err)], None))
           | Fulfils decision \<Rightarrow>
               (emit (ResolverCalled encounteredTag) s,
                ([MaybeLoad_resolver el encounteredTag (Inr decision)], None))))"

text \<open>The part after \<open>await resolver(encounteredTag, el)\<close>.\<close>

fun maybeLoadForElement_resume ::
  "host \<Rightarrow> node \<Rightarrow> string \<Rightarrow> js_error + resolution decision \<Rightarrow> loader_state \<Rightarrow>
   loader_state \<times> suspension" where
  "maybeLoadForElement_resume h el encounteredTag (Inl err) s =
     (emit (CheckEnd el)
        (log Error ''Resolver threw; marking as failed'' encounteredTag
           (failed_set encounteredTag err s)),
      ([], None))"
| "maybeLoadForElement_resume h el encounteredTag (Inr JsFalse) s =
     (emit (CheckEnd el) (skipped_add encounteredTag s), ([], None))"
| "maybeLoadForElement_resume h el encounteredTag (Inr (NotFalse decision)) s =
     await_call (MaybeLoad_applyResolution el) (applyResolution_start h encounteredTag decision s)"

subsection \<open>scan (lines 327-338) and preload (lines 368-373)\<close>

fun scan_loop :: "host \<Rightarrow> node list \<Rightarrow> loader_state \<Rightarrow> loader_state \<times> suspension" where
  "scan_loop h [] s = (s, ([], None))"
| "scan_loop h (el # els) s = await_call (Scan_loop els) (maybeLoadForElement_start h el s)"

definition scan_descendants :: "host \<Rightarrow> node \<Rightarrow> loader_state \<Rightarrow> loader_state \<times> suspension" where
  "scan_descendants h root s =
     (if \<not> deepScan h then (s, ([], None)) else scan_loop h (querySelectorAll_star root) s)"

definition scan_start :: "host \<Rightarrow> node \<Rightarrow> loader_state \<Rightarrow> loader_state \<times> suspension" where
  "scan_start h root s0 =
     (let s = emit (ScanCalled root) s0 in
        if isElement root then await_call (Scan_root root) (maybeLoadForElement_start h root s)
        else scan_descendants h root s)"

definition preload_start ::
  "host \<Rightarrow> string \<Rightarrow> resolution \<Rightarrow> loader_state \<Rightarrow> loader_state \<times> suspension" where
  "preload_start h tagName' res s =
     (let encounteredTag = toLowerCase tagName' in
        if \<not> isPotentialCustomElementTag encounteredTag then (s, ([], None))
        else if customElements_get s encounteredTag \<noteq> None then (s, ([], None))
        else await_call Preload_applyResolution (applyResolution_start h encounteredTag res s))"

subsection \<open>Resuming a suspended call\<close>

text \<open>
  The top frame continues when what it awaits has settled: \<open>None\<close> when it has not (a
  \<open>whenDefined\<close> promise of a name that is not defined yet). The result of a resolver
  and of \<open>import\<close> may arrive at any later step.
\<close>

fun resume_frame ::
  "host \<Rightarrow> frame \<Rightarrow> completion \<Rightarrow> loader_state \<Rightarrow> (loader_state \<times> suspension) option" where
  "resume_frame h (ImportFromUrl_import encounteredTag res defineAs' href) c s =
     Some (importFromUrl_resume h encounteredTag res defineAs' href s)"
| "resume_frame h (ImportFromUrl_whenDefined defineAs') c s =
     (case whenDefined h s defineAs' of None \<Rightarrow> None | Some r \<Rightarrow> Some (s, ([], r)))"
| "resume_frame h (ApplyResolution_whenDefined encounteredTag defineAs') c s =
     (case whenDefined h s defineAs' of
        None \<Rightarrow> None
      | Some r \<Rightarrow> Some (applyResolution_end encounteredTag r s))"
| "resume_frame h (ApplyResolution_importFromUrl encounteredTag) c s =
     Some (applyResolution_end encounteredTag c s)"
| "resume_frame h (MaybeLoad_resolver el encounteredTag settled) c s =
     Some (maybeLoadForElement_resume h el encounteredTag settled s)"
| "resume_frame h (MaybeLoad_applyResolution el) c s = Some (emit (CheckEnd el) s, ([], c))"
| "resume_frame h (Scan_root root) c s =
     (case c of
        Some err \<Rightarrow> Some (s, ([], Some err))
      | None \<Rightarrow> if \<not> deepScan h then Some (s, ([], None)) else Some (scan_descendants h root s))"
| "resume_frame h (Scan_loop els) c s =
     (case c of Some err \<Rightarrow> Some (s, ([], Some err)) | None \<Rightarrow> Some (scan_loop h els s))"
| "resume_frame h Preload_applyResolution c s = Some (s, ([], c))"

subsection \<open>The loader and its callers\<close>

text \<open>
  The loader with every call that is under way. An action is a call of the loader's
  interface, a batch of mutation records delivered to the observer (each record with its
  added nodes), the continuation of a suspended call, or a definition made by other code
  of the page. A run is any sequence of actions: the calls overlap in every way the
  event loop allows.
\<close>

record system =
  lstate :: loader_state
  tasks :: "suspension list"
  observer :: bool

datatype action =
    Start
  | Stop
  | Scan node
  | Preload string resolution
  | Mutations "node list list"
  | Resume nat
  | DefineElsewhere string ce_class

definition spawn :: "(loader_state \<Rightarrow> loader_state \<times> suspension) \<Rightarrow> system \<Rightarrow> system" where
  "spawn call sys =
     (case call ((lstate sys)\<lparr>cur := length (tasks sys)\<rparr>) of
        (s', t) \<Rightarrow> sys\<lparr>lstate := s', tasks := tasks sys @ [t]\<rparr>)"

definition onMutations :: "host \<Rightarrow> node list list \<Rightarrow> system \<Rightarrow> system" where
  "onMutations h mutations sys =
     fold (\<lambda>addedNodes. fold (\<lambda>node sys'.
             if \<not> isElement node then sys'
             else fold (\<lambda>el. spawn (maybeLoadForElement_start h el)) (querySelectorAll_star node)
                    (spawn (maybeLoadForElement_start h node) sys'))
           addedNodes)
       mutations sys"

definition resume_task :: "host \<Rightarrow> nat \<Rightarrow> system \<Rightarrow> system" where
  "resume_task h i sys =
     (if i < length (tasks sys) then
        (case tasks sys ! i of
           ([], c) \<Rightarrow> sys
         | (f # fs, c) \<Rightarrow>
             (case resume_frame h f c ((lstate sys)\<lparr>cur := i\<rparr>) of
                None \<Rightarrow> sys
              | Some (s', (fs', c')) \<Rightarrow>
                  sys\<lparr>lstate := s', tasks := (tasks sys)[i := (fs' @ fs, c')]\<rparr>))
      else sys)"

fun exec :: "host \<Rightarrow> action \<Rightarrow> system \<Rightarrow> system" where
  "exec h Start sys =
     (let sys' = spawn (scan_start h (document h)) sys in
        if \<not> observeMutations h then sys'
        else if observer sys' then sys'
        else sys'\<lparr>observer := True\<rparr>)"
| "exec h Stop sys = sys\<lparr>observer := False\<rparr>"
| "exec h (Scan root) sys = spawn (scan_start h root) sys"
| "exec h (Preload tagName' res) sys = spawn (preload_start h tagName' res) sys"
| "exec h (Mutations mutations) sys = (if observer sys then onMutations h mutations sys else sys)"
| "exec h (Resume i) sys = resume_task h i sys"
| "exec h (DefineElsewhere name cls) sys =
     (case customElements_define h name cls (lstate sys) of
        Inl err \<Rightarrow> sys
      | Inr s' \<Rightarrow> sys\<lparr>lstate := s'\<rparr>)"

definition run :: "host \<Rightarrow> action list \<Rightarrow> system \<Rightarrow> system" where
  "run h acts sys = fold (exec h) acts sys"

text \<open>A new loader on a page whose registry holds the definitions \<open>reg\<close>.\<close>

definition new_loader :: "(string \<times> ce_class) list \<Rightarrow> system" where
  "new_loader reg =
     \<lparr>lstate = \<lparr>pending = {}, loaded = {}, failed = Map.empty, skipped = {}, registry = reg,
                modules = Map.empty, logs = [], events = [], cur = 0\<rparr>,
      tasks = [], observer = False\<rparr>"

section \<open>The HTML builder (fluent-html.js)\<close>

subsection \<open>The DOM the builder works on\<close>

text \<open>
  The builder creates nodes and puts nodes it is given under the new element, and a node
  has one parent at most: appending it moves it. So nodes are objects with identity. The
  DOM is a heap of nodes, a reference is an index of the heap, and a new node is added at
  the end. A node has its kind (an element with its namespace and local name, a text node
  with its data, a fragment or a document), its attributes in order, its children in
  order and its parent.
\<close>

type_synonym ref = nat

datatype node_kind =
    ElementKind string string
  | TextKind string
  | FragmentKind
  | DocumentKind

record dom_node =
  nkind :: node_kind
  nattrs :: "(string \<times> string) list"
  nchildren :: "ref list"
  nparent :: "ref option"

type_synonym dom = "dom_node list"

text \<open>
  The values a tag function is called with: \<open>null\<close>, \<open>undefined\<close>, booleans, strings,
  numbers, functions, arrays, DOM nodes and other objects (with their own enumerable
  properties, in order).
\<close>

datatype jsval =
    VNull
  | VUndefined
  | VBool bool
  | VStr string
  | VNum int
  | VFunction nat
  | VArray "jsval list"
  | VNode ref
  | VObject "(string \<times> jsval) list"

text \<open>
  What the builder takes from the page and the language: \<open>String(v)\<close> for a value that is
  not a string, the names \<open>createElement\<close> and \<open>setAttribute\<close> accept, the test \<open>k in el\<close>,
  the assignments \<open>el[k] = v\<close> (which may throw: \<open>None\<close>), \<open>el.style[k] = v\<close> and
  \<open>el.dataset[k] = v\<close>, and \<open>addEventListener\<close>.
\<close>

record dom_host =
  js_String :: "jsval \<Rightarrow> string"
  valid_element_name :: "string \<Rightarrow> bool"
  valid_attribute_name :: "string \<Rightarrow> bool"
  has_property :: "dom \<Rightarrow> ref \<Rightarrow> string \<Rightarrow> bool"
  assign_property :: "dom \<Rightarrow> ref \<Rightarrow> string \<Rightarrow> jsval \<Rightarrow> dom option"
  assign_style :: "dom \<Rightarrow> ref \<Rightarrow> string \<Rightarrow> string \<Rightarrow> dom"
  assign_dataset :: "dom \<Rightarrow> ref \<Rightarrow> string \<Rightarrow> string \<Rightarrow> js_error + dom"
  addEventListener :: "dom \<Rightarrow> ref \<Rightarrow> string \<Rightarrow> jsval \<Rightarrow> js_error + dom"

definition HTML_NS :: string where
  "HTML_NS = ''http://www.w3.org/1999/xhtml''"

definition SVG_NS :: string where
  "SVG_NS = ''http://www.w3.org/2000/svg''"

definition SVG_TAGS :: "string list" where
  "SVG_TAGS = [''svg'', ''g'', ''path'', ''circle'', ''rect'', ''line'', ''polyline'', ''polygon'',
     ''ellipse'', ''text'', ''tspan'', ''defs'', ''clipPath'', ''mask'', ''pattern'',
     ''linearGradient'', ''radialGradient'', ''stop'', ''symbol'', ''use'', ''marker'',
     ''foreignObject'', ''view'']"

text \<open>
  In an HTML document \<open>createElement\<close> and, on an HTML element, \<open>setAttribute\<close> put the
  name they are given in ASCII lowercase; \<open>createElementNS\<close> keeps the name as it is.
\<close>

fun asciiLowerChar :: "char \<Rightarrow> char" where
  "asciiLowerChar (Char b0 b1 b2 b3 b4 b5 b6 b7) =
     (if 65 \<le> (of_char (Char b0 b1 b2 b3 b4 b5 b6 b7) :: nat) \<and>
         (of_char (Char b0 b1 b2 b3 b4 b5 b6 b7) :: nat) \<le> 90
      then Char b0 b1 b2 b3 b4 True b6 b7
      else Char b0 b1 b2 b3 b4 b5 b6 b7)"

definition asciiLowerCase :: "string \<Rightarrow> string" where
  "asciiLowerCase s = map asciiLowerChar s"

definition new_node :: "node_kind \<Rightarrow> dom_node" where
  "new_node k = \<lparr>nkind = k, nattrs = [], nchildren = [], nparent = None\<rparr>"

definition createElement :: "dom_host \<Rightarrow> dom \<Rightarrow> string \<Rightarrow> js_error + dom \<times> ref" where
  "createElement d h localName =
     (if \<not> valid_element_name d localName then Inl (JsError ''InvalidCharacterError'')
      else Inr (h @ [new_node (ElementKind HTML_NS (asciiLowerCase localName))], length h))"

definition createElementNS :: "dom_host \<Rightarrow> dom \<Rightarrow> string \<Rightarrow> string \<Rightarrow> js_error + dom \<times> ref" where
  "createElementNS d h ns qualifiedName =
     (if \<not> valid_element_name d qualifiedName then Inl (JsError ''InvalidCharacterError'')
      else Inr (h @ [new_node (ElementKind ns qualifiedName)], length h))"

definition createTextNode :: "dom \<Rightarrow> string \<Rightarrow> dom \<times> ref" where
  "createTextNode h data = (h @ [new_node (TextKind data)], length h)"

text \<open>
  \<open>parent.appendChild(child)\<close> of the DOM. A value that is no node is a type error. The
  parent must be able to have children, the child must not be the parent or one of its
  ancestors, a document cannot be a child, and a document takes no text and one element
  only. Then an element or a text node leaves the parent it has and becomes the last
  child; a fragment gives its children, in order, and is left empty.
\<close>

fun inclusive_ancestor :: "nat \<Rightarrow> dom \<Rightarrow> ref \<Rightarrow> ref \<Rightarrow> bool" where
  "inclusive_ancestor 0 h a r = (a = r)"
| "inclusive_ancestor (Suc n) h a r =
     (a = r \<or> (case nparent (h ! r) of None \<Rightarrow> False | Some p \<Rightarrow> p < length h \<and> inclusive_ancestor n h a p))"

fun is_element_kind :: "node_kind \<Rightarrow> bool" where
  "is_element_kind (ElementKind ns name) = True"
| "is_element_kind k = False"

fun is_text_kind :: "node_kind \<Rightarrow> bool" where
  "is_text_kind (TextKind data) = True"
| "is_text_kind k = False"

definition element_children :: "dom \<Rightarrow> ref list \<Rightarrow> ref list" where
  "element_children h rs = filter (\<lambda>r. is_element_kind (nkind (h ! r))) rs"

definition text_children :: "dom \<Rightarrow> ref list \<Rightarrow> ref list" where
  "text_children h rs = filter (\<lambda>r. is_text_kind (nkind (h ! r))) rs"

text \<open>The nodes that are inserted when \<open>child\<close> is appended.\<close>

definition inserted_nodes :: "dom \<Rightarrow> ref \<Rightarrow> ref list" where
  "inserted_nodes h child = (if nkind (h ! child) = FragmentKind then nchildren (h ! child) else [child])"

definition document_accepts :: "dom \<Rightarrow> ref \<Rightarrow> ref \<Rightarrow> bool" where
  "document_accepts h parent child =
     (text_children h (inserted_nodes h child) = [] \<and>
      length (element_children h (inserted_nodes h child)) +
        length (element_children h (nchildren (h ! parent))) \<le> 1)"

definition detach :: "dom \<Rightarrow> ref \<Rightarrow> dom" where
  "detach h c =
     (case nparent (h ! c) of
        None \<Rightarrow> h
      | Some p \<Rightarrow>
          (let h1 = h[p := (h ! p)\<lparr>nchildren := removeAll c (nchildren (h ! p))\<rparr>]
           in h1[c := (h1 ! c)\<lparr>nparent := None\<rparr>]))"

definition attach :: "dom \<Rightarrow> ref \<Rightarrow> ref \<Rightarrow> dom" where
  "attach h p c =
     (let h1 = h[p := (h ! p)\<lparr>nchildren := nchildren (h ! p) @ [c]\<rparr>]
      in h1[c := (h1 ! c)\<lparr>nparent := Some p\<rparr>])"

definition move_under :: "ref \<Rightarrow> ref \<Rightarrow> dom \<Rightarrow> dom" where
  "move_under p c h = attach (detach h c) p c"

fun node_appendChild :: "dom \<Rightarrow> ref \<Rightarrow> jsval \<Rightarrow> js_error + dom" where
  "node_appendChild h parent (VNode child) =
     (if \<not> (parent < length h \<and> child < length h) then Inl (JsError ''TypeError'')
      else if is_text_kind (nkind (h ! parent)) then Inl (JsError ''HierarchyRequestError'')
      else if inclusive_ancestor (length h) h child parent then Inl (JsError ''HierarchyRequestError'')
      else if nkind (h ! child) = DocumentKind then Inl (JsError ''HierarchyRequestError'')
      else if nkind (h ! parent) = DocumentKind \<and> \<not> document_accepts h parent child
      then Inl (JsError ''HierarchyRequestError'')
      else Inr (fold (move_under parent) (inserted_nodes h child) h))"
| "node_appendChild h parent v = Inl (JsError ''TypeError'')"

subsection \<open>appendChild (lines 155-184)\<close>

fun isNode :: "jsval \<Rightarrow> bool" where
  "isNode (VNode n) = True"
| "isNode (VObject props) = (case map_of props ''nodeType'' of Some (VNum k) \<Rightarrow> True | _ \<Rightarrow> False)"
| "isNode v = False"

fun isPlainObject :: "jsval \<Rightarrow> bool" where
  "isPlainObject (VObject props) = (\<not> isNode (VObject props))"
| "isPlainObject v = False"

fun to_String :: "dom_host \<Rightarrow> jsval \<Rightarrow> string" where
  "to_String d (VStr s) = s"
| "to_String d v = js_String d v"

definition toTextNode :: "dom_host \<Rightarrow> dom \<Rightarrow> jsval \<Rightarrow> dom \<times> ref" where
  "toTextNode d h v = createTextNode h (to_String d v)"

definition append_text :: "dom_host \<Rightarrow> dom \<Rightarrow> ref \<Rightarrow> jsval \<Rightarrow> js_error + dom" where
  "append_text d h parent v = (case toTextNode d h v of (h', r) \<Rightarrow> node_appendChild h' parent (VNode r))"

fun appendChild :: "dom_host \<Rightarrow> dom \<Rightarrow> ref \<Rightarrow> jsval \<Rightarrow> js_error + dom"
  and appendChildren :: "dom_host \<Rightarrow> dom \<Rightarrow> ref \<Rightarrow> jsval list \<Rightarrow> js_error + dom" where
  "appendChild d h parent VNull = Inr h"
| "appendChild d h parent VUndefined = Inr h"
| "appendChild d h parent (VBool b) = Inr h"
| "appendChild d h parent (VArray cs) = appendChildren d h parent cs"
| "appendChild d h parent (VNode n) = node_appendChild h parent (VNode n)"
| "appendChild d h parent (VStr x) = append_text d h parent (VStr x)"
| "appendChild d h parent (VNum k) = append_text d h parent (VNum k)"
| "appendChild d h parent (VFunction f) = append_text d h parent (VFunction f)"
| "appendChild d h parent (VObject props) =
     (if isNode (VObject props) then node_appendChild h parent (VObject props)
      else append_text d h parent (VObject props))"
| "appendChildren d h parent [] = Inr h"
| "appendChildren d h parent (c # cs) =
     (case appendChild d h parent c of
        Inl err \<Rightarrow> Inl err
      | Inr h' \<Rightarrow> appendChildren d h' parent cs)"

subsection \<open>applyAttrs (lines 186-241) and tag (lines 248-273)\<close>

text \<open>
  \<open>el.setAttribute(k, v)\<close>: the value of the attribute of that name is replaced, or the
  attribute is added behind the others.
\<close>

fun set_attr :: "string \<Rightarrow> string \<Rightarrow> (string \<times> string) list \<Rightarrow> (string \<times> string) list" where
  "set_attr k v [] = [(k, v)]"
| "set_attr k v ((a, x) # as) = (if a = k then (a, v) # as else (a, x) # set_attr k v as)"

definition attribute_name :: "node_kind \<Rightarrow> string \<Rightarrow> string" where
  "attribute_name kind k =
     (case kind of
        ElementKind ns name \<Rightarrow> if ns = HTML_NS then asciiLowerCase k else k
      | _ \<Rightarrow> k)"

definition setAttribute :: "dom_host \<Rightarrow> dom \<Rightarrow> ref \<Rightarrow> string \<Rightarrow> string \<Rightarrow> js_error + dom" where
  "setAttribute d h el k v =
     (if \<not> (el < length h \<and> is_element_kind (nkind (h ! el))) then Inl (JsError ''TypeError'')
      else if \<not> valid_attribute_name d k then Inl (JsError ''InvalidCharacterError'')
      else Inr (h[el := (h ! el)\<lparr>nattrs := set_attr (attribute_name (nkind (h ! el)) k) v
                                            (nattrs (h ! el))\<rparr>]))"

fun is_nullish :: "jsval \<Rightarrow> bool" where
  "is_nullish VNull = True"
| "is_nullish VUndefined = True"
| "is_nullish v = False"

fun truthy :: "jsval \<Rightarrow> bool" where
  "truthy VNull = False"
| "truthy VUndefined = False"
| "truthy (VBool b) = b"
| "truthy (VStr x) = (x \<noteq> [])"
| "truthy (VNum k) = (k \<noteq> 0)"
| "truthy v = True"

text \<open>\<open>typeof v === "object"\<close> for a value that is not \<open>null\<close>, and \<open>Object.entries(v)\<close>.\<close>

fun is_object :: "jsval \<Rightarrow> bool" where
  "is_object (VArray xs) = True"
| "is_object (VNode n) = True"
| "is_object (VObject props) = True"
| "is_object v = False"

fun object_entries :: "dom_host \<Rightarrow> jsval \<Rightarrow> (string \<times> jsval) list" where
  "object_entries d (VObject props) = props"
| "object_entries d (VArray xs) = zip (map (\<lambda>i. js_String d (VNum (int i))) [0..<length xs]) xs"
| "object_entries d v = []"

text \<open>The three inner loops of \<open>applyAttrs\<close> (style, dataset and event listeners).\<close>

fun apply_style :: "dom_host \<Rightarrow> dom \<Rightarrow> ref \<Rightarrow> (string \<times> jsval) list \<Rightarrow> dom" where
  "apply_style d h el [] = h"
| "apply_style d h el ((sk, sv) # rest) =
     (if is_nullish sv then apply_style d h el rest
      else apply_style d (assign_style d h el sk (to_String d sv)) el rest)"

fun apply_dataset :: "dom_host \<Rightarrow> dom \<Rightarrow> ref \<Rightarrow> (string \<times> jsval) list \<Rightarrow> js_error + dom" where
  "apply_dataset d h el [] = Inr h"
| "apply_dataset d h el ((dk, dv) # rest) =
     (if is_nullish dv then apply_dataset d h el rest
      else (case assign_dataset d h el dk (to_String d dv) of
              Inl err \<Rightarrow> Inl err
            | Inr h' \<Rightarrow> apply_dataset d h' el rest))"

fun apply_on :: "dom_host \<Rightarrow> dom \<Rightarrow> ref \<Rightarrow> (string \<times> jsval) list \<Rightarrow> js_error + dom" where
  "apply_on d h el [] = Inr h"
| "apply_on d h el ((ek, ev) # rest) =
     (if \<not> truthy ev then apply_on d h el rest
      else (case addEventListener d h el ek ev of
              Inl err \<Rightarrow> Inl err
            | Inr h' \<Rightarrow> apply_on d h' el rest))"

text \<open>One round of the loop of \<open>applyAttrs\<close> (lines 189-240), for the entry \<open>(k, v)\<close>.\<close>

definition applyAttr :: "dom_host \<Rightarrow> dom \<Rightarrow> ref \<Rightarrow> string \<Rightarrow> jsval \<Rightarrow> js_error + dom" where
  "applyAttr d h el k v =
     (if is_nullish v \<or> v = VBool False then Inr h
      else if k = ''style'' then
        (case v of
           VStr x \<Rightarrow> setAttribute d h el ''style'' x
         | _ \<Rightarrow> if is_object v then Inr (apply_style d h el (object_entries d v)) else Inr h)
      else if k = ''dataset'' \<and> is_object v then apply_dataset d h el (object_entries d v)
      else if k = ''on'' \<and> is_object v then apply_on d h el (object_entries d v)
      else
        (case (if has_property d h el k \<and> \<not> string_includes k ''-''
               then assign_property d h el k v else None) of
           Some h' \<Rightarrow> Inr h'
         | None \<Rightarrow>
             if v = VBool True then setAttribute d h el k []
             else setAttribute d h el k (to_String d v)))"

fun applyAttrs_loop :: "dom_host \<Rightarrow> dom \<Rightarrow> ref \<Rightarrow> (string \<times> jsval) list \<Rightarrow> js_error + dom" where
  "applyAttrs_loop d h el [] = Inr h"
| "applyAttrs_loop d h el ((k, v) # rest) =
     (case applyAttr d h el k v of
        Inl err \<Rightarrow> Inl err
      | Inr h' \<Rightarrow> applyAttrs_loop d h' el rest)"

definition applyAttrs :: "dom_host \<Rightarrow> dom \<Rightarrow> ref \<Rightarrow> jsval option \<Rightarrow> js_error + dom" where
  "applyAttrs d h el attrs =
     (case attrs of None \<Rightarrow> Inr h | Some a \<Rightarrow> applyAttrs_loop d h el (object_entries d a))"

text \<open>
  The function that \<open>tag(tagName)\<close> returns, applied to its arguments in the DOM \<open>h\<close>: it
  gives the DOM with the new tree and the reference of the new element.
\<close>

definition tag :: "dom_host \<Rightarrow> string \<Rightarrow> dom \<Rightarrow> jsval list \<Rightarrow> js_error + dom \<times> ref" where
  "tag d tagName' h args =
     (let isSvg = (tagName' \<in> set SVG_TAGS);
          (attrs, children) =
             (if args \<noteq> [] \<and> isPlainObject (hd args) then (Some (hd args), tl args)
              else (None, args))
      in
        case (if isSvg then createElementNS d h SVG_NS tagName' else createElement d h tagName') of
          Inl err \<Rightarrow> Inl err
        | Inr (h1, el) \<Rightarrow>
            (case applyAttrs d h1 el attrs of
               Inl err \<Rightarrow> Inl err
             | Inr h2 \<Rightarrow>
                 (case appendChildren d h2 el children of
                    Inl err \<Rightarrow> Inl err
                  | Inr h3 \<Rightarrow> Inr (h3, el))))"

subsection \<open>The builder in the specification's words\<close>

text \<open>
  The element that is created: an SVG element of the given name for the names of the
  table, an HTML element of the lowercased name for every other name.
\<close>

definition created_kind :: "string \<Rightarrow> node_kind" where
  "created_kind tagName' =
     (if tagName' \<in> set SVG_TAGS then ElementKind SVG_NS tagName'
      else ElementKind HTML_NS (asciiLowerCase tagName'))"

text \<open>
  The children: arrays are flattened recursively, a node stands for itself, a string or a
  number becomes a text node, and \<open>null\<close>, \<open>undefined\<close> and \<open>false\<close> are ignored. The code
  ignores \<open>true\<close> as well and stringifies a function and any other object; an object that
  only looks like a node (a numeric \<open>nodeType\<close> property) is taken for one.
\<close>

datatype item = ItemNode ref | ItemText string | ItemNoNode jsval

fun flatten_child :: "dom_host \<Rightarrow> jsval \<Rightarrow> item list" where
  "flatten_child d VNull = []"
| "flatten_child d VUndefined = []"
| "flatten_child d (VBool b) = []"
| "flatten_child d (VStr x) = [ItemText x]"
| "flatten_child d (VNum k) = [ItemText (js_String d (VNum k))]"
| "flatten_child d (VFunction f) = [ItemText (js_String d (VFunction f))]"
| "flatten_child d (VArray cs) = concat (map (flatten_child d) cs)"
| "flatten_child d (VNode n) = [ItemNode n]"
| "flatten_child d (VObject props) =
     (if isNode (VObject props) then [ItemNoNode (VObject props)]
      else [ItemText (js_String d (VObject props))])"

definition flatten_children :: "dom_host \<Rightarrow> jsval list \<Rightarrow> item list" where
  "flatten_children d cs = concat (map (flatten_child d) cs)"

text \<open>The items are appended one after the other with \<open>appendChild\<close> of the DOM.\<close>

fun append_item :: "dom \<Rightarrow> ref \<Rightarrow> item \<Rightarrow> js_error + dom" where
  "append_item h parent (ItemNode n) = node_appendChild h parent (VNode n)"
| "append_item h parent (ItemText x) =
     (case createTextNode h x of (h', r) \<Rightarrow> node_appendChild h' parent (VNode r))"
| "append_item h parent (ItemNoNode v) = node_appendChild h parent v"

fun append_items :: "dom \<Rightarrow> ref \<Rightarrow> item list \<Rightarrow> js_error + dom" where
  "append_items h parent [] = Inr h"
| "append_items h parent (i # is) =
     (case append_item h parent i of
        Inl err \<Rightarrow> Inl err
      | Inr h' \<Rightarrow> append_items h' parent is)"

text \<open>
  Reading the children back: a text node is read as its text, any other node as itself.
  What an item is read back as is known before the call.
\<close>

datatype child_view = TextView string | NodeView ref

definition view :: "dom \<Rightarrow> ref \<Rightarrow> child_view" where
  "view h r = (case nkind (h ! r) of TextKind x \<Rightarrow> TextView x | _ \<Rightarrow> NodeView r)"

definition children_view :: "dom \<Rightarrow> ref \<Rightarrow> child_view list" where
  "children_view h el = map (view h) (nchildren (h ! el))"


text \<open>
  The nodes among the items that can be appended one by one and all stay: elements and
  text nodes of the DOM, each given once.
\<close>

fun item_nodes :: "item list \<Rightarrow> ref list" where
  "item_nodes [] = []"
| "item_nodes (ItemNode n # is) = n # item_nodes is"
| "item_nodes (i # is) = item_nodes is"

fun is_no_node :: "item \<Rightarrow> bool" where
  "is_no_node (ItemNoNode v) = True"
| "is_no_node i = False"

definition plain_items :: "dom \<Rightarrow> item list \<Rightarrow> bool" where
  "plain_items h items =
     (list_all (\<lambda>i. \<not> is_no_node i) items \<and> distinct (item_nodes items) \<and>
      list_all (\<lambda>n. n < length h \<and> (is_element_kind (nkind (h ! n)) \<or> is_text_kind (nkind (h ! n))))
        (item_nodes items))"


definition left_out :: "jsval \<Rightarrow> bool" where
  "left_out v = (is_nullish v \<or> v = VBool False)"


fun is_string :: "jsval \<Rightarrow> bool" where
  "is_string (VStr x) = True"
| "is_string v = False"

definition attribute_entry :: "dom_host \<Rightarrow> ref \<Rightarrow> string \<times> jsval \<Rightarrow> bool" where
  "attribute_entry d el kv =
     (valid_attribute_name d (fst kv) \<and>
      (if fst kv = ''style'' then is_string (snd kv) \<or> left_out (snd kv)
       else (fst kv = ''dataset'' \<or> fst kv = ''on'' \<longrightarrow> \<not> is_object (snd kv)) \<and>
            (string_includes (fst kv) ''-'' \<or> (\<forall>h. \<not> has_property d h el (fst kv)))))"

subsection \<open>The HTML builder: proofs\<close>

lemma append_items_append:
  "append_items h p (xs @ ys) =
     (case append_items h p xs of Inl err \<Rightarrow> Inl err | Inr h' \<Rightarrow> append_items h' p ys)"
  by (induction xs arbitrary: h) (auto split: sum.splits)

lemma append_items_single: "append_items h p [i] = append_item h p i"
  by (simp split: sum.splits)

lemma appendChild_flatten:
  "appendChild d h p c = append_items h p (flatten_child d c)"
  and appendChildren_flatten:
  "appendChildren d h p cs = append_items h p (concat (map (flatten_child d) cs))"
proof (induction d h p c and d h p cs rule: appendChild_appendChildren.induct)
  case (11 d h parent c cs)
  then show ?case
    by (simp add: append_items_append split: sum.splits)
qed (simp_all add: append_text_def toTextNode_def split: sum.splits)



























text \<open>
  A page to try the builder on: a DOM with an element \<open>b\<close> and a text node \<open>t\<close>, both
  without a parent, where \<open>id\<close> and \<open>className\<close> are properties of every element.
\<close>

definition test_dom :: dom_host where
  "test_dom =
     \<lparr>js_String = (\<lambda>v. if v = VNum 5 then ''5'' else ''[object Object]''),
      valid_element_name = (\<lambda>n. n \<noteq> [] \<and> CHR '' '' \<notin> set n),
      valid_attribute_name = (\<lambda>k. k \<noteq> [] \<and> CHR '' '' \<notin> set k),
      has_property = (\<lambda>h el k. k = ''id'' \<or> k = ''className''),
      assign_property = (\<lambda>h el k v. None),
      assign_style = (\<lambda>h el k v. h),
      assign_dataset = (\<lambda>h el k v. Inr h),
      addEventListener = (\<lambda>h el k v. Inr h)\<rparr>"

definition test_page :: dom where
  "test_page = [new_node (ElementKind HTML_NS ''b''), new_node (TextKind ''t'')]"

lemmas builder_defs =
  test_dom_def test_page_def new_node_def created_kind_def SVG_TAGS_def HTML_NS_def SVG_NS_def
  asciiLowerCase_def attribute_name_def attribute_entry_def left_out_def plain_items_def
  flatten_children_def view_def children_view_def


text \<open>
  A node that is given twice is moved by the second \<open>appendChild\<close>: it is a child once.
  And a node that is a child of a node given before it is taken out of that node.
\<close>

lemma node_given_twice:
  "tag test_dom ''span'' test_page [VNode 1, VNode 0, VNode 1] =
     Inr ([\<lparr>nkind = ElementKind HTML_NS ''b'', nattrs = [], nchildren = [], nparent = Some 2\<rparr>,
           \<lparr>nkind = TextKind ''t'', nattrs = [], nchildren = [], nparent = Some 2\<rparr>,
           \<lparr>nkind = ElementKind HTML_NS ''span'', nattrs = [], nchildren = [0, 1],
            nparent = None\<rparr>], 2)"
  by (simp add: tag_def createElement_def applyAttrs_def inserted_nodes_def move_under_def
      detach_def attach_def Let_def builder_defs numeral_2_eq_2)

section \<open>Properties of the loader\<close>

subsection \<open>Case folding\<close>

lemma lowered_not_upper: "\<not> isUpperCaseUnit (of_char (Char b0 b1 b2 b3 b4 True b6 b7))"
  by (cases b6; cases b7) (simp_all add: isUpperCaseUnit_def)

lemma toLowerChar_idem: "toLowerChar (toLowerChar c) = toLowerChar c"
proof (cases c)
  case (Char b0 b1 b2 b3 b4 b5 b6 b7)
  show ?thesis
    unfolding Char
    by (cases "isUpperCaseUnit (of_char (Char b0 b1 b2 b3 b4 b5 b6 b7))")
       (simp_all only: toLowerChar.simps lowered_not_upper if_False if_True)
qed

lemma toLowerCase_idem: "toLowerCase (toLowerCase s) = toLowerCase s"
  by (simp add: toLowerCase_def toLowerChar_idem)

lemma isPotential_lower: "isPotentialCustomElementTag (toLowerCase s) = isPotentialCustomElementTag s"
  by (simp add: isPotentialCustomElementTag_def toLowerCase_idem)

subsection \<open>A page for the examples\<close>

text \<open>
  A page with two \<open>my-card\<close> elements and a template whose content has some text and two
  element roots; the resolver answers \<open>my-card\<close> with that template. One module can be
  imported and registers its element itself. The registry refuses the reserved name
  \<open>font-face\<close>, as the registry of a browser does.
\<close>

definition card_resolution :: resolution where
  "card_resolution =
     \<lparr>importFromUrl = None, importFromTmpl = Some ''tmpl-my-card'', defineAs = None,
      exportName = None, waitForDefinition = False\<rparr>"

definition card_template :: node where
  "card_template =
     DocumentFragment [TextNode '' '', Element ''MY-CARD'' [] [TextNode ''first''],
                       Element ''MY-OTHER'' [] [TextNode ''second'']]"

definition demo_host :: host where
  "demo_host =
     \<lparr>resolver = (\<lambda>t e. if t = ''my-card'' then Fulfils (NotFalse card_resolution)
                           else Fulfils JsFalse),
      deepScan = True,
      observeMutations = True,
      document = Document [Element ''HTML'' []
                   [Element ''BODY'' [] [Element ''MY-CARD'' [] [], Element ''MY-CARD'' [] []]]],
      getElementById = (\<lambda>i. if i = ''tmpl-my-card'' then Some (HTMLTemplateElement card_template)
                                else None),
      resolveUrl = (\<lambda>u. Inr (''https://example.test/'' @ u)),
      importModule = (\<lambda>href. if href = ''https://example.test/synthetic-component.js''
                                 then ImportFulfils []
                                        [(''synthetic-component'', ModuleClass ''SyntheticComponent'')]
                                 else ImportRejects (JsError ''TypeError'')),
      refusedName = (\<lambda>n. if n = ''font-face'' then Some (JsError ''SyntaxError'') else None)\<rparr>"

lemmas demo_defs =
  demo_host_def card_resolution_def card_template_def new_loader_def

lemmas syntax_defs =
  isPotentialCustomElementTag_def toLowerCase_def isUpperCaseUnit_def class_a_z_def
  class_0_9_def class_name_char_def

lemmas loader_defs =
  run_def spawn_def resume_task_def scan_start_def scan_descendants_def querySelectorAll_star_def
  preload_start_def maybeLoadForElement_start_def applyResolution_start_def applyResolution_end_def
  defineFromTemplate_def importFromUrl_start_def importFromUrl_resume_def wait_if_asked_def
  import_module_def firstElementChild_def customElements_get_def customElements_define_def
  whenDefined_def await_call_def emit_def log_def skipped_add_def loaded_add_def failed_set_def
  onMutations_def Let_def

subsection \<open>preload on a tag that is no custom element or is already defined\<close>

text \<open>
  Claim C10. When the lowercased tag name fails the syntax check or is already defined
  in the registry, \<open>preload\<close> returns at once and normally, and the state is the one it was
  called in: the four collections, the registry, the log and the trace (no import was
  called). An already-defined tag is not added to \<open>loaded\<close>; on the URL-import path a
  define-name that is already defined is.
\<close>

theorem preload_leaves_state:
  "(\<not> isPotentialCustomElementTag (toLowerCase tagName') \<or>
      customElements_get s (toLowerCase tagName') \<noteq> None \<longrightarrow>
        preload_start h tagName' res s = (s, ([], None))) \<and>
   (defineAs res = None \<and> isPotentialCustomElementTag encounteredTag \<and>
      customElements_get s (toLowerCase encounteredTag) \<noteq> None \<longrightarrow>
        importFromUrl_start h encounteredTag res s = (loaded_add encounteredTag s, ([], None)))"
  by (auto simp: preload_start_def importFromUrl_start_def Let_def isPotential_lower)

theorem preload_leaves_state_witness:
  "preload_start demo_host ''DIV''
     \<lparr>importFromUrl = Some (UrlString ''synthetic-component.js''), importFromTmpl = None,
      defineAs = None, exportName = None, waitForDefinition = False\<rparr>
     (lstate (new_loader [])) = (lstate (new_loader []), ([], None)) \<and>
   preload_start demo_host ''My-Card''
     \<lparr>importFromUrl = Some (UrlString ''synthetic-component.js''), importFromTmpl = None,
      defineAs = None, exportName = None, waitForDefinition = False\<rparr>
     (lstate (new_loader [(''my-card'', ModuleClass ''MyCard'')])) =
       (lstate (new_loader [(''my-card'', ModuleClass ''MyCard'')]), ([], None)) \<and>
   ''my-card'' \<in> loaded (fst (importFromUrl_start demo_host ''my-card''
     \<lparr>importFromUrl = Some (UrlString ''synthetic-component.js''), importFromTmpl = None,
      defineAs = None, exportName = None, waitForDefinition = False\<rparr>
     (lstate (new_loader [(''my-card'', ModuleClass ''MyCard'')]))))"
  using preload_leaves_state [of "''DIV''" "lstate (new_loader [])" demo_host
      "\<lparr>importFromUrl = Some (UrlString ''synthetic-component.js''), importFromTmpl = None,
        defineAs = None, exportName = None, waitForDefinition = False\<rparr>" "''my-card''"]
    preload_leaves_state [of "''My-Card''" "lstate (new_loader [(''my-card'', ModuleClass ''MyCard'')])"
      demo_host
      "\<lparr>importFromUrl = Some (UrlString ''synthetic-component.js''), importFromTmpl = None,
        defineAs = None, exportName = None, waitForDefinition = False\<rparr>" "''my-card''"]
  by (simp add: demo_defs syntax_defs customElements_get_def loaded_add_def)

subsection \<open>The element root of a template\<close>

lemma find_isElement_none: "list_all (\<lambda>n. \<not> isElement n) ns \<Longrightarrow> find isElement ns = None"
  by (induction ns) auto

lemma find_isElement_first:
  "list_all (\<lambda>n. \<not> isElement n) before \<Longrightarrow> isElement root \<Longrightarrow>
   find isElement (before @ root # rest) = Some root"
  by (induction before) auto

text \<open>
  Claim C7, as amended. The loader takes the first element child of the template's content
  as the root, however many element children follow it. A content with no element child
  defines no class: the tag is skipped with a warning, and the registry stays as it was.
  With a root, no \<open>defineAs\<close>, and a root tag name that passes the syntax check and is
  neither defined nor refused by the registry, the class is defined under the root's
  lowercased tag name, with the root's children as its markup.
\<close>

theorem defineFromTemplate_first_root:
  "importFromTmpl res = Some tmplId \<and> getElementById h tmplId = Some (HTMLTemplateElement frag) \<longrightarrow>
     (list_all (\<lambda>n. \<not> isElement n) (childNodes frag) \<longrightarrow>
        defineFromTemplate h encounteredTag res s =
          (skipped_add encounteredTag
             (log Warn ''Template is empty or has no element root'' encounteredTag s), None)) \<and>
     (childNodes frag = before @ root # rest \<and> list_all (\<lambda>n. \<not> isElement n) before \<and>
      isElement root \<and> defineAs res = None \<and> isPotentialCustomElementTag (tagName root) \<and>
      customElements_get s (toLowerCase (tagName root)) = None \<and>
      refusedName h (toLowerCase (tagName root)) = None \<longrightarrow>
        defineFromTemplate h encounteredTag res s =
          (loaded_add encounteredTag
             (s\<lparr>registry := (toLowerCase (tagName root), TemplateBackedElement (childNodes root))
                              # registry s\<rparr>), None))"
  by (auto simp: defineFromTemplate_def firstElementChild_def find_isElement_none
      find_isElement_first Let_def toLowerCase_idem isPotential_lower customElements_define_def)

theorem defineFromTemplate_first_root_witness:
  "defineFromTemplate demo_host ''my-card'' card_resolution (lstate (new_loader [])) =
     (loaded_add ''my-card''
        ((lstate (new_loader []))\<lparr>registry := [(''my-card'', TemplateBackedElement [TextNode ''first''])]\<rparr>),
      None)"
  using defineFromTemplate_first_root [of card_resolution "''tmpl-my-card''" demo_host card_template
      "''my-card''" "lstate (new_loader [])" "[TextNode '' '']" "Element ''MY-CARD'' [] [TextNode ''first'']"
      "[Element ''MY-OTHER'' [] [TextNode ''second'']]"]
  by (simp add: demo_defs syntax_defs customElements_get_def)

text \<open>
  The claim as it was stated fails: the content of this template has two element roots,
  and the loader defines a class from it.
\<close>

theorem template_two_roots_counterexample:
  "length (filter isElement (childNodes card_template)) = 2 \<and>
   customElements_get
     (fst (defineFromTemplate demo_host ''my-card'' card_resolution (lstate (new_loader []))))
     ''my-card'' = Some (TemplateBackedElement [TextNode ''first''])"
  by (simp add: demo_defs syntax_defs defineFromTemplate_def firstElementChild_def
      customElements_get_def customElements_define_def loaded_add_def Let_def)

subsection \<open>What a step may change\<close>

text \<open>
  The relation between the state before and after any piece of the loader's code:
  \<open>loaded\<close> and \<open>skipped\<close> only grow, the log and the trace are only extended, an
  entry of \<open>failed\<close> disappears only where a resolution attempt for its tag begins, and an
  entry of \<open>pending\<close> only where the attempt for its tag ends.
\<close>

definition new_events :: "loader_state \<Rightarrow> loader_state \<Rightarrow> (nat \<times> event) list" where
  "new_events s s' = drop (length (events s)) (events s')"

definition step_rel :: "loader_state \<Rightarrow> loader_state \<Rightarrow> bool" where
  "step_rel s s' =
     (loaded s \<subseteq> loaded s' \<and> skipped s \<subseteq> skipped s' \<and> set (logs s) \<subseteq> set (logs s') \<and>
      take (length (events s)) (events s') = events s \<and>
      (\<forall>t. failed s t \<noteq> None \<and> failed s' t = None \<longrightarrow>
             AttemptBegin t \<in> snd ` set (new_events s s')) \<and>
      (\<forall>t. t \<in> pending s \<and> t \<notin> pending s' \<longrightarrow>
             AttemptEnd t \<in> snd ` set (new_events s s')))"

lemma step_rel_refl: "step_rel s s"
  by (auto simp: step_rel_def)

lemma take_prefix_append: "take (length xs) ys = xs \<Longrightarrow> ys = xs @ drop (length xs) ys"
  by (metis append_take_drop_id)

lemma step_rel_trans:
  assumes "step_rel s s'" and "step_rel s' s''"
  shows "step_rel s s''"
proof -
  obtain n1 where n1: "events s' = events s @ n1" and d1: "new_events s s' = n1"
    using assms(1) take_prefix_append unfolding step_rel_def new_events_def by fastforce
  obtain n2 where n2: "events s'' = events s' @ n2" and d2: "new_events s' s'' = n2"
    using assms(2) take_prefix_append unfolding step_rel_def new_events_def by fastforce
  have d: "new_events s s'' = n1 @ n2"
    by (simp add: new_events_def n1 n2)
  have f: "\<forall>t. failed s t \<noteq> None \<and> failed s'' t = None \<longrightarrow> AttemptBegin t \<in> snd ` set (n1 @ n2)"
  proof (intro allI impI)
    fix t assume a: "failed s t \<noteq> None \<and> failed s'' t = None"
    show "AttemptBegin t \<in> snd ` set (n1 @ n2)"
    proof (cases "failed s' t = None")
      case True
      then have "AttemptBegin t \<in> snd ` set n1"
        using assms(1) a d1 unfolding step_rel_def by blast
      then show ?thesis by auto
    next
      case False
      then have "AttemptBegin t \<in> snd ` set n2"
        using assms(2) a d2 unfolding step_rel_def by blast
      then show ?thesis by auto
    qed
  qed
  have p: "\<forall>t. t \<in> pending s \<and> t \<notin> pending s'' \<longrightarrow> AttemptEnd t \<in> snd ` set (n1 @ n2)"
  proof (intro allI impI)
    fix t assume a: "t \<in> pending s \<and> t \<notin> pending s''"
    show "AttemptEnd t \<in> snd ` set (n1 @ n2)"
    proof (cases "t \<in> pending s'")
      case False
      then have "AttemptEnd t \<in> snd ` set n1"
        using assms(1) a d1 unfolding step_rel_def by blast
      then show ?thesis by auto
    next
      case True
      then have "AttemptEnd t \<in> snd ` set n2"
        using assms(2) a d2 unfolding step_rel_def by blast
      then show ?thesis by auto
    qed
  qed
  have "loaded s \<subseteq> loaded s''" "skipped s \<subseteq> skipped s''" "set (logs s) \<subseteq> set (logs s'')"
    using assms unfolding step_rel_def by blast+
  moreover have "take (length (events s)) (events s'') = events s"
    by (simp add: n1 n2)
  ultimately show ?thesis
    using f p d unfolding step_rel_def by simp
qed

lemma step_rel_defineFromTemplate:
  "step_rel s (fst (defineFromTemplate h t res s))"
  by (auto simp: step_rel_def new_events_def defineFromTemplate_def skipped_add_def loaded_add_def
      log_def customElements_define_def Let_def
      split: option.splits element_by_id.splits sum.splits)

lemma step_rel_importFromUrl_start:
  "step_rel s (fst (importFromUrl_start h t res s))"
  by (auto simp: step_rel_def new_events_def importFromUrl_start_def skipped_add_def loaded_add_def
      log_def emit_def Let_def split: option.splits sum.splits)

text \<open>The evaluation of a module changes the registry and the module map only.\<close>

definition same_collections :: "loader_state \<Rightarrow> loader_state \<Rightarrow> bool" where
  "same_collections s s' =
     (pending s' = pending s \<and> loaded s' = loaded s \<and> failed s' = failed s \<and>
      skipped s' = skipped s \<and> logs s' = logs s \<and> events s' = events s \<and> cur s' = cur s)"

lemma same_collections_define:
  "customElements_define h name cls s = Inr s' \<Longrightarrow> same_collections s s'"
  by (auto simp: customElements_define_def same_collections_def split: option.splits if_splits)

lemma same_collections_define_all: "same_collections s (fst (define_all h defs s))"
proof (induction defs arbitrary: s)
  case Nil
  then show ?case by (simp add: same_collections_def)
next
  case (Cons d defs)
  obtain name cls where d: "d = (name, cls)"
    by (cases d)
  show ?case
  proof (cases "customElements_define h name cls s")
    case (Inl err)
    then show ?thesis by (simp add: d same_collections_def)
  next
    case (Inr s')
    then show ?thesis
      using same_collections_define [OF Inr] Cons.IH [of s']
      by (simp add: d same_collections_def)
  qed
qed

lemma same_collections_import: "same_collections s (fst (import_module h href s))"
proof (cases "importModule h href")
  case (ImportRejects err)
  then show ?thesis by (simp add: import_module_def same_collections_def)
next
  case (ImportFulfils m defs)
  show ?thesis
  proof (cases "modules s href")
    case None
    obtain s1 c where d: "define_all h defs s = (s1, c)"
      by fastforce
    have "same_collections s s1"
      using same_collections_define_all [of s h defs] d by simp
    then show ?thesis
      using ImportFulfils None d
      by (cases c) (simp_all add: import_module_def same_collections_def)
  next
    case (Some x)
    then show ?thesis
      using ImportFulfils by (cases x) (simp_all add: import_module_def same_collections_def)
  qed
qed

lemma import_module_frame:
  assumes "import_module h href s = (s1, oc)"
  shows "pending s1 = pending s" "loaded s1 = loaded s" "failed s1 = failed s"
    "skipped s1 = skipped s" "logs s1 = logs s" "events s1 = events s" "cur s1 = cur s"
  using same_collections_import [of s h href] assms by (simp_all add: same_collections_def)

lemma step_rel_importFromUrl_resume:
  "step_rel s (fst (importFromUrl_resume h t res d href s))"
proof -
  obtain s1 oc where e: "import_module h href s = (s1, oc)"
    by fastforce
  show ?thesis
    using import_module_frame [OF e]
    by (auto simp: step_rel_def new_events_def importFromUrl_resume_def e wait_if_asked_def
        skipped_add_def loaded_add_def log_def customElements_define_def Let_def
        split: option.splits sum.splits)
qed

lemma step_rel_applyResolution_end:
  "step_rel s (fst (applyResolution_end t c s))"
  by (auto simp: step_rel_def new_events_def applyResolution_end_def failed_set_def log_def emit_def
      Let_def split: option.splits)

lemma step_rel_attempt_begin:
  "step_rel s (emit (AttemptBegin t) (s\<lparr>pending := insert t (pending s), failed := (failed s)(t := None)\<rparr>))"
  by (auto simp: step_rel_def new_events_def emit_def)

lemma step_rel_log: "step_rel s (log lvl m t s)"
  by (auto simp: step_rel_def new_events_def log_def)

lemma step_rel_emit: "step_rel s (emit ev s)"
  by (auto simp: step_rel_def new_events_def emit_def)

lemma step_rel_skipped_add: "step_rel s (skipped_add t s)"
  by (auto simp: step_rel_def new_events_def skipped_add_def)

lemma step_rel_failed_set: "step_rel s (failed_set t e s)"
  by (auto simp: step_rel_def new_events_def failed_set_def)

lemma step_rel_await_call: "fst (await_call f r) = fst r"
  by (simp add: await_call_def split: prod.splits)

lemma step_rel_applyResolution_start:
  "step_rel s (fst (applyResolution_start h t res s))"
proof (cases "t \<in> pending s")
  case True
  then show ?thesis by (simp add: applyResolution_start_def step_rel_refl)
next
  case False
  define s1 where "s1 = emit (AttemptBegin t)
      (s\<lparr>pending := insert t (pending s), failed := (failed s)(t := None)\<rparr>)"
  have b: "step_rel s s1"
    unfolding s1_def by (rule step_rel_attempt_begin)
  have e: "step_rel s (fst (applyResolution_end t c x))" if "step_rel s1 x" for c x
    using b that step_rel_trans step_rel_applyResolution_end by blast
  show ?thesis
  proof (cases "truthy_string (importFromTmpl res)")
    case True
    obtain s2 c where df: "defineFromTemplate h t res s1 = (s2, c)"
      by fastforce
    have "step_rel s1 s2"
      using step_rel_defineFromTemplate [of s1 h t res] df by simp
    then have s2: "step_rel s s2" and s2e: "step_rel s (fst (applyResolution_end t c' s2))" for c'
      using b step_rel_trans e by blast+
    have "fst (applyResolution_start h t res s) = s2 \<or>
          fst (applyResolution_start h t res s) = fst (applyResolution_end t c s2) \<or>
          fst (applyResolution_start h t res s) = fst (applyResolution_end t None s2)"
      using False True df
      by (simp add: applyResolution_start_def Let_def s1_def [symmetric] split: option.splits)
    then show ?thesis
      using s2 s2e by metis
  next
    case no_tmpl: False
    show ?thesis
    proof (cases "truthy_url (importFromUrl res)")
      case True
      have "fst (applyResolution_start h t res s) = fst (importFromUrl_start h t res s1)"
        using False no_tmpl True
        by (simp add: applyResolution_start_def Let_def s1_def [symmetric] step_rel_await_call)
      then show ?thesis
        using b step_rel_importFromUrl_start step_rel_trans by metis
    next
      case no_url: False
      have "fst (applyResolution_start h t res s) =
            fst (applyResolution_end t None (skipped_add t (log Warn
              ''Resolver returned a resolution with neither importFromUrl nor importFromTmpl'' t s1)))"
        using False no_tmpl no_url
        by (simp add: applyResolution_start_def Let_def s1_def [symmetric])
      moreover have "step_rel s1 (skipped_add t (log Warn
              ''Resolver returned a resolution with neither importFromUrl nor importFromTmpl'' t s1))"
        using step_rel_log step_rel_skipped_add step_rel_trans by blast
      ultimately show ?thesis
        using e by simp
    qed
  qed
qed

lemma step_rel_maybeLoadForElement_start:
  "step_rel s (fst (maybeLoadForElement_start h el s))"
  by (auto simp: step_rel_def new_events_def maybeLoadForElement_start_def failed_set_def log_def
      emit_def Let_def split: resolver_outcome.splits)

lemma step_rel_maybeLoadForElement_resume:
  "step_rel s (fst (maybeLoadForElement_resume h el t settled s))"
proof (cases settled)
  case (Inl err)
  then show ?thesis
    by (auto simp: step_rel_def new_events_def failed_set_def log_def emit_def)
next
  case (Inr dec)
  then show ?thesis
    by (cases dec)
       (auto simp: step_rel_await_call step_rel_applyResolution_start
          intro: step_rel_trans [OF step_rel_skipped_add step_rel_emit])
qed

lemma step_rel_scan_loop: "step_rel s (fst (scan_loop h els s))"
  by (cases els) (simp_all add: step_rel_refl step_rel_await_call step_rel_maybeLoadForElement_start)

lemma step_rel_scan_descendants: "step_rel s (fst (scan_descendants h root s))"
  by (simp add: scan_descendants_def step_rel_refl step_rel_scan_loop)

lemma step_rel_scan_start: "step_rel s (fst (scan_start h root s))"
  using step_rel_trans [OF step_rel_emit step_rel_maybeLoadForElement_start]
    step_rel_trans [OF step_rel_emit step_rel_scan_descendants]
  by (simp add: scan_start_def Let_def step_rel_await_call)

lemma step_rel_preload_start: "step_rel s (fst (preload_start h n res s))"
  by (simp add: preload_start_def Let_def step_rel_refl step_rel_await_call
      step_rel_applyResolution_start)

lemma step_rel_resume_frame:
  "resume_frame h f c s = Some r \<Longrightarrow> step_rel s (fst r)"
  by (cases f)
     (auto simp: step_rel_refl step_rel_importFromUrl_resume step_rel_applyResolution_end
        step_rel_maybeLoadForElement_resume step_rel_emit step_rel_scan_descendants
        step_rel_scan_loop split: option.splits if_splits)
lemma step_rel_cur: "step_rel s (s\<lparr>cur := i\<rparr>)"
  by (auto simp: step_rel_def new_events_def)

lemma step_rel_spawn:
  assumes "\<And>s. step_rel s (fst (call s))"
  shows "step_rel (lstate sys) (lstate (spawn call sys))"
proof -
  have "step_rel (lstate sys) (fst (call ((lstate sys)\<lparr>cur := length (tasks sys)\<rparr>)))"
    using step_rel_trans [OF step_rel_cur assms] .
  then show ?thesis
    by (auto simp: spawn_def split: prod.splits)
qed

lemma step_rel_spawn_checks:
  "step_rel (lstate sys)
     (lstate (fold (\<lambda>el. spawn (maybeLoadForElement_start h el)) els sys))"
proof (induction els arbitrary: sys)
  case Nil
  then show ?case by (simp add: step_rel_refl)
next
  case (Cons el els)
  have "step_rel (lstate sys) (lstate (spawn (maybeLoadForElement_start h el) sys))"
    by (rule step_rel_spawn) (rule step_rel_maybeLoadForElement_start)
  then show ?case
    using Cons.IH step_rel_trans by fastforce
qed

text \<open>The mutation callback checks, for every added element, the element and its descendants.\<close>

definition added_elements :: "node list list \<Rightarrow> node list" where
  "added_elements mutations =
     concat (map (\<lambda>addedNodes. concat (map (\<lambda>node.
        if \<not> isElement node then [] else node # querySelectorAll_star node) addedNodes)) mutations)"

lemma fold_spawn_append:
  "fold (\<lambda>el. spawn (maybeLoadForElement_start h el)) (xs @ ys) sys =
   fold (\<lambda>el. spawn (maybeLoadForElement_start h el)) ys
     (fold (\<lambda>el. spawn (maybeLoadForElement_start h el)) xs sys)"
  by simp

lemma onMutations_nodes:
  "fold (\<lambda>node sys'.
      if \<not> isElement node then sys'
      else fold (\<lambda>el. spawn (maybeLoadForElement_start h el)) (querySelectorAll_star node)
             (spawn (maybeLoadForElement_start h node) sys')) addedNodes sys =
   fold (\<lambda>el. spawn (maybeLoadForElement_start h el))
     (concat (map (\<lambda>node. if \<not> isElement node then [] else node # querySelectorAll_star node)
        addedNodes)) sys"
  by (induction addedNodes arbitrary: sys) auto

lemma onMutations_flat:
  "onMutations h mutations sys =
   fold (\<lambda>el. spawn (maybeLoadForElement_start h el)) (added_elements mutations) sys"
  unfolding onMutations_def added_elements_def
  by (induction mutations arbitrary: sys) (simp_all add: onMutations_nodes)

lemma step_rel_resume_task: "step_rel (lstate sys) (lstate (resume_task h i sys))"
proof (cases "i < length (tasks sys)")
  case False
  then show ?thesis by (simp add: resume_task_def step_rel_refl)
next
  case True
  show ?thesis
  proof (cases "tasks sys ! i")
    case (Pair fs c)
    show ?thesis
    proof (cases fs)
      case Nil
      then show ?thesis using True Pair by (simp add: resume_task_def step_rel_refl)
    next
      case (Cons f rest)
      show ?thesis
      proof (cases "resume_frame h f c ((lstate sys)\<lparr>cur := i\<rparr>)")
        case None
        then show ?thesis using True Pair Cons by (simp add: resume_task_def step_rel_refl)
      next
        case (Some r)
        have "step_rel (lstate sys) (fst r)"
          using step_rel_trans [OF step_rel_cur step_rel_resume_frame [OF Some]] .
        then show ?thesis
          using True Pair Cons Some by (auto simp: resume_task_def split: prod.splits)
      qed
    qed
  qed
qed

lemma step_rel_registry: "step_rel s (s\<lparr>registry := r\<rparr>)"
  by (auto simp: step_rel_def new_events_def)

lemma step_rel_exec: "step_rel (lstate sys) (lstate (exec h a sys))"
proof (cases a)
  case Start
  have "step_rel (lstate sys) (lstate (spawn (scan_start h (document h)) sys))"
    by (rule step_rel_spawn) (rule step_rel_scan_start)
  then show ?thesis using Start by (simp add: Let_def)
next
  case Stop
  then show ?thesis by (simp add: step_rel_refl)
next
  case (Scan root)
  then show ?thesis by (simp add: step_rel_spawn step_rel_scan_start)
next
  case (Preload n res)
  then show ?thesis by (simp add: step_rel_spawn step_rel_preload_start)
next
  case (Mutations ms)
  then show ?thesis by (simp add: onMutations_flat step_rel_spawn_checks step_rel_refl)
next
  case (Resume i)
  then show ?thesis by (simp add: step_rel_resume_task)
next
  case (DefineElsewhere n cls)
  then show ?thesis
    by (auto simp: customElements_define_def step_rel_refl step_rel_registry
        split: sum.splits option.splits if_splits)
qed

lemma step_rel_run: "step_rel (lstate sys) (lstate (run h acts sys))"
proof (induction acts arbitrary: sys)
  case Nil
  then show ?case by (simp add: run_def step_rel_refl)
next
  case (Cons a acts)
  have "step_rel (lstate (exec h a sys)) (lstate (run h acts (exec h a sys)))"
    by (rule Cons.IH)
  then show ?case
    using step_rel_trans [OF step_rel_exec] by (simp add: run_def)
qed

subsection \<open>Resolution attempts under way\<close>

text \<open>
  A suspended call is inside a resolution attempt for a tag when one of its frames is a
  frame of \<open>applyResolution\<close> for that tag: the attempt has begun and its \<open>finally\<close>
  block has not run yet.
\<close>

fun attempt_tag :: "frame \<Rightarrow> string list" where
  "attempt_tag (ApplyResolution_whenDefined t d) = [t]"
| "attempt_tag (ApplyResolution_importFromUrl t) = [t]"
| "attempt_tag f = []"

definition attempts_of :: "frame list \<Rightarrow> string list" where
  "attempts_of fs = concat (map attempt_tag fs)"

definition attempting :: "system \<Rightarrow> nat \<Rightarrow> string \<Rightarrow> bool" where
  "attempting sys i t = (i < length (tasks sys) \<and> t \<in> set (attempts_of (fst (tasks sys ! i))))"

definition dedup_inv :: "system \<Rightarrow> bool" where
  "dedup_inv sys =
     ((\<forall>t. (t \<in> pending (lstate sys)) = (\<exists>i. attempting sys i t)) \<and>
      (\<forall>t i j. attempting sys i t \<and> attempting sys j t \<longrightarrow> i = j) \<and>
      (\<forall>i. i < length (tasks sys) \<longrightarrow> distinct (attempts_of (fst (tasks sys ! i)))))"

text \<open>
  What a call does to \<open>pending\<close> up to its first suspension: it adds exactly the tags of
  the attempts its frames are inside, none of which was pending.
\<close>

definition starts_ok :: "loader_state \<Rightarrow> loader_state \<times> suspension \<Rightarrow> bool" where
  "starts_ok s r =
     (pending (fst r) = pending s \<union> set (attempts_of (fst (snd r))) \<and>
      distinct (attempts_of (fst (snd r))) \<and>
      set (attempts_of (fst (snd r))) \<inter> pending s = {})"

lemma attempts_of_simps [simp]:
  "attempts_of [] = []"
  "attempts_of (f # fs) = attempt_tag f @ attempts_of fs"
  "attempts_of (fs @ gs) = attempts_of fs @ attempts_of gs"
  by (simp_all add: attempts_of_def)

lemma pending_defineFromTemplate [simp]:
  "pending (fst (defineFromTemplate h t res s)) = pending s"
  by (auto simp: defineFromTemplate_def skipped_add_def loaded_add_def log_def
      customElements_define_def Let_def split: option.splits element_by_id.splits sum.splits)

lemma starts_ok_importFromUrl_start:
  "pending (fst (importFromUrl_start h t res s)) = pending s \<and>
   attempts_of (fst (snd (importFromUrl_start h t res s))) = []"
  by (auto simp: importFromUrl_start_def skipped_add_def loaded_add_def log_def emit_def Let_def
      split: option.splits sum.splits)

lemma pending_importFromUrl_resume:
  "pending (fst (importFromUrl_resume h t res d href s)) = pending s \<and>
   attempts_of (fst (snd (importFromUrl_resume h t res d href s))) = []"
proof -
  obtain s1 oc where e: "import_module h href s = (s1, oc)"
    by fastforce
  show ?thesis
    using import_module_frame [OF e]
    by (auto simp: importFromUrl_resume_def e wait_if_asked_def loaded_add_def
        log_def customElements_define_def Let_def split: option.splits sum.splits)
qed

lemma pending_applyResolution_end:
  "pending (fst (applyResolution_end t c s)) = pending s - {t} \<and>
   fst (snd (applyResolution_end t c s)) = []"
  by (auto simp: applyResolution_end_def failed_set_def log_def emit_def Let_def
      split: option.splits)

lemma await_call_simps [simp]:
  "fst (await_call f r) = fst r"
  "fst (snd (await_call f r)) = fst (snd r) @ [f]"
  "snd (snd (await_call f r)) = snd (snd r)"
  by (simp_all add: await_call_def split: prod.splits)

lemma starts_ok_applyResolution_start:
  "starts_ok s (applyResolution_start h t res s)"
proof (cases "t \<in> pending s")
  case True
  then show ?thesis by (simp add: applyResolution_start_def starts_ok_def)
next
  case False
  define s1 where "s1 = emit (AttemptBegin t)
      (s\<lparr>pending := insert t (pending s), failed := (failed s)(t := None)\<rparr>)"
  have p1: "pending s1 = insert t (pending s)"
    by (simp add: s1_def emit_def)
  show ?thesis
  proof (cases "truthy_string (importFromTmpl res)")
    case True
    obtain s2 c where df: "defineFromTemplate h t res s1 = (s2, c)"
      by fastforce
    have p2: "pending s2 = insert t (pending s)"
      using pending_defineFromTemplate [of h t res s1] df p1 by simp
    show ?thesis
      using False True df p2 pending_applyResolution_end
      by (auto simp: applyResolution_start_def Let_def s1_def [symmetric] starts_ok_def
          split: option.splits)
  next
    case no_tmpl: False
    show ?thesis
    proof (cases "truthy_url (importFromUrl res)")
      case True
      then show ?thesis
        using False no_tmpl p1 starts_ok_importFromUrl_start [of h t res s1]
        by (simp add: applyResolution_start_def Let_def s1_def [symmetric] starts_ok_def)
    next
      case no_url: False
      then show ?thesis
        using False no_tmpl p1 pending_applyResolution_end
        by (auto simp: applyResolution_start_def Let_def s1_def [symmetric] starts_ok_def
            skipped_add_def log_def)
    qed
  qed
qed

lemma quiet_maybeLoadForElement_start:
  "pending (fst (maybeLoadForElement_start h el s)) = pending s \<and>
   attempts_of (fst (snd (maybeLoadForElement_start h el s))) = []"
  by (auto simp: maybeLoadForElement_start_def failed_set_def log_def emit_def Let_def
      split: resolver_outcome.splits)

lemma starts_ok_quiet:
  "pending (fst r) = pending s \<and> attempts_of (fst (snd r)) = [] \<Longrightarrow> starts_ok s r"
  by (simp add: starts_ok_def)

lemma starts_ok_await:
  "starts_ok s r \<Longrightarrow> attempt_tag f = [] \<Longrightarrow> starts_ok s (await_call f r)"
  by (simp add: starts_ok_def)

lemma starts_ok_maybeLoadForElement_start: "starts_ok s (maybeLoadForElement_start h el s)"
  by (rule starts_ok_quiet) (rule quiet_maybeLoadForElement_start)

lemma starts_ok_same_pending: "pending s' = pending s \<Longrightarrow> starts_ok s r \<Longrightarrow> starts_ok s' r"
  by (simp add: starts_ok_def)

lemma starts_ok_maybeLoadForElement_resume:
  "starts_ok s (maybeLoadForElement_resume h el t settled s)"
proof (cases settled)
  case (Inl err)
  then show ?thesis
    by (simp add: starts_ok_def failed_set_def log_def emit_def)
next
  case (Inr dec)
  then show ?thesis
    by (cases dec)
       (simp_all add: starts_ok_await starts_ok_applyResolution_start,
        simp add: starts_ok_def skipped_add_def emit_def)
qed

lemma starts_ok_scan_loop: "starts_ok s (scan_loop h els s)"
  by (cases els) (simp_all add: starts_ok_def quiet_maybeLoadForElement_start)

lemma starts_ok_scan_descendants: "starts_ok s (scan_descendants h root s)"
  using starts_ok_scan_loop by (simp add: scan_descendants_def starts_ok_def)

lemma starts_ok_scan_start: "starts_ok s (scan_start h root s)"
proof -
  have p: "pending (emit (ScanCalled root) s) = pending s"
    by (simp add: emit_def)
  have "starts_ok s (scan_descendants h root (emit (ScanCalled root) s))"
    using starts_ok_scan_descendants [of "emit (ScanCalled root) s" h root] p
    by (simp add: starts_ok_def)
  moreover have "starts_ok s (maybeLoadForElement_start h root (emit (ScanCalled root) s))"
    using starts_ok_maybeLoadForElement_start [of "emit (ScanCalled root) s" h root] p
    by (simp add: starts_ok_def)
  ultimately show ?thesis
    by (simp add: scan_start_def Let_def starts_ok_await)
qed

lemma starts_ok_preload_start: "starts_ok s (preload_start h n res s)"
  using starts_ok_applyResolution_start
  by (simp add: preload_start_def Let_def starts_ok_await) (simp add: starts_ok_def)

text \<open>
  What a continuation does to \<open>pending\<close>: it removes the tag of the attempt the resumed
  frame was inside, and adds the tags of the attempts its new frames are inside.
\<close>

definition resumes_ok :: "frame \<Rightarrow> loader_state \<Rightarrow> loader_state \<times> suspension \<Rightarrow> bool" where
  "resumes_ok f s r =
     (pending (fst r) = (pending s - set (attempt_tag f)) \<union> set (attempts_of (fst (snd r))) \<and>
      distinct (attempts_of (fst (snd r))) \<and>
      set (attempts_of (fst (snd r))) \<inter> (pending s - set (attempt_tag f)) = {})"

lemma resumes_ok_from_starts:
  "starts_ok s r \<Longrightarrow> attempt_tag f = [] \<Longrightarrow> resumes_ok f s r"
  by (simp add: starts_ok_def resumes_ok_def)

lemma resumes_ok_resume_frame:
  "resume_frame h f c s = Some r \<Longrightarrow> resumes_ok f s r"
proof (cases f)
  case (ImportFromUrl_import t res d href)
  assume "resume_frame h f c s = Some r"
  then show ?thesis
    using ImportFromUrl_import pending_importFromUrl_resume [of h t res d href s]
    by (auto simp: resumes_ok_def)
next
  case (ImportFromUrl_whenDefined d)
  assume "resume_frame h f c s = Some r"
  then show ?thesis
    using ImportFromUrl_whenDefined by (auto simp: resumes_ok_def split: option.splits)
next
  case (ApplyResolution_whenDefined t d)
  assume "resume_frame h f c s = Some r"
  then show ?thesis
    using ApplyResolution_whenDefined pending_applyResolution_end
    by (auto simp: resumes_ok_def split: option.splits)
next
  case (ApplyResolution_importFromUrl t)
  assume "resume_frame h f c s = Some r"
  then show ?thesis
    using ApplyResolution_importFromUrl pending_applyResolution_end
    by (auto simp: resumes_ok_def)
next
  case (MaybeLoad_resolver el t settled)
  assume "resume_frame h f c s = Some r"
  then show ?thesis
    using MaybeLoad_resolver starts_ok_maybeLoadForElement_resume [of s h el t settled]
    by (auto intro: resumes_ok_from_starts)
next
  case (MaybeLoad_applyResolution el)
  assume "resume_frame h f c s = Some r"
  then show ?thesis
    using MaybeLoad_applyResolution by (auto simp: resumes_ok_def emit_def)
next
  case (Scan_root root)
  assume "resume_frame h f c s = Some r"
  then show ?thesis
    using Scan_root starts_ok_scan_descendants [of s h root]
    by (auto simp: resumes_ok_def starts_ok_def split: option.splits if_splits)
next
  case (Scan_loop els)
  assume "resume_frame h f c s = Some r"
  then show ?thesis
    using Scan_loop starts_ok_scan_loop [of s h els]
    by (auto simp: resumes_ok_def starts_ok_def split: option.splits if_splits)
next
  case Preload_applyResolution
  assume "resume_frame h f c s = Some r"
  then show ?thesis
    using Preload_applyResolution by (auto simp: resumes_ok_def)
qed
lemma attempting_spawn:
  assumes "call ((lstate sys)\<lparr>cur := length (tasks sys)\<rparr>) = (s', (fs, c))"
  shows "attempting (spawn call sys) i t =
           (attempting sys i t \<or> (i = length (tasks sys) \<and> t \<in> set (attempts_of fs)))"
  using assms by (auto simp: attempting_def spawn_def nth_append)

lemma dedup_inv_spawn:
  assumes inv: "dedup_inv sys" and ok: "\<And>s. starts_ok s (call s)"
  shows "dedup_inv (spawn call sys)"
proof -
  obtain s' fs c where r: "call ((lstate sys)\<lparr>cur := length (tasks sys)\<rparr>) = (s', (fs, c))"
    by (metis prod_cases3)
  have st: "pending s' = pending (lstate sys) \<union> set (attempts_of fs)"
    "distinct (attempts_of fs)" "set (attempts_of fs) \<inter> pending (lstate sys) = {}"
    using ok [of "(lstate sys)\<lparr>cur := length (tasks sys)\<rparr>"] r by (simp_all add: starts_ok_def)
  have at: "\<And>i t. attempting (spawn call sys) i t =
           (attempting sys i t \<or> (i = length (tasks sys) \<and> t \<in> set (attempts_of fs)))"
    using r by (rule attempting_spawn)
  have old: "\<And>i t. attempting sys i t \<Longrightarrow> i < length (tasks sys) \<and> t \<in> pending (lstate sys)"
    using inv by (auto simp: dedup_inv_def attempting_def)
  have l: "lstate (spawn call sys) = s'" "tasks (spawn call sys) = tasks sys @ [(fs, c)]"
    using r by (simp_all add: spawn_def)
  have a: "\<forall>t. (t \<in> pending (lstate (spawn call sys))) = (\<exists>i. attempting (spawn call sys) i t)"
    using inv st at l by (auto simp: dedup_inv_def)
  have b: "\<forall>t i j. attempting (spawn call sys) i t \<and> attempting (spawn call sys) j t \<longrightarrow> i = j"
  proof (intro allI impI)
    fix t i j
    assume h: "attempting (spawn call sys) i t \<and> attempting (spawn call sys) j t"
    show "i = j"
    proof (cases "t \<in> set (attempts_of fs)")
      case True
      then have "t \<notin> pending (lstate sys)" using st by auto
      then have "\<not> attempting sys i t" "\<not> attempting sys j t" using old by auto
      then show ?thesis using h at by auto
    next
      case False
      then have "attempting sys i t" "attempting sys j t" using h at by auto
      then show ?thesis using inv by (auto simp: dedup_inv_def)
    qed
  qed
  have c: "\<forall>i. i < length (tasks (spawn call sys)) \<longrightarrow>
             distinct (attempts_of (fst (tasks (spawn call sys) ! i)))"
    using inv st l by (auto simp: dedup_inv_def nth_append)
  show ?thesis
    using a b c by (simp add: dedup_inv_def)
qed

lemma dedup_inv_spawn_checks:
  "dedup_inv sys \<Longrightarrow> dedup_inv (fold (\<lambda>el. spawn (maybeLoadForElement_start h el)) els sys)"
proof (induction els arbitrary: sys)
  case Nil
  then show ?case by simp
next
  case (Cons el els)
  have "dedup_inv (spawn (maybeLoadForElement_start h el) sys)"
    using Cons.prems starts_ok_maybeLoadForElement_start by (rule dedup_inv_spawn)
  then show ?case
    using Cons.IH by simp
qed

lemma dedup_inv_resume_task:
  assumes inv: "dedup_inv sys"
  shows "dedup_inv (resume_task h i sys)"
proof (cases "i < length (tasks sys)")
  case False
  then show ?thesis using inv by (simp add: resume_task_def)
next
  case True
  obtain stack c where task: "tasks sys ! i = (stack, c)"
    by fastforce
  show ?thesis
  proof (cases stack)
    case Nil
    then show ?thesis using inv True task by (simp add: resume_task_def)
  next
    case (Cons f rest)
    show ?thesis
    proof (cases "resume_frame h f c ((lstate sys)\<lparr>cur := i\<rparr>)")
      case None
      then show ?thesis using inv True task Cons by (simp add: resume_task_def)
    next
      case (Some r)
      obtain s' fs' c' where r: "r = (s', (fs', c'))"
        by (metis prod_cases3)
      let ?sys' = "resume_task h i sys"
      have l: "lstate ?sys' = s'" "tasks ?sys' = (tasks sys)[i := (fs' @ rest, c')]"
        using True task Cons Some r by (simp_all add: resume_task_def)
      have ok: "pending s' = (pending (lstate sys) - set (attempt_tag f)) \<union> set (attempts_of fs')"
        "distinct (attempts_of fs')"
        "set (attempts_of fs') \<inter> (pending (lstate sys) - set (attempt_tag f)) = {}"
        using resumes_ok_resume_frame [OF Some] r by (simp_all add: resumes_ok_def)
      have here: "\<And>t. attempting sys i t = (t \<in> set (attempt_tag f) \<or> t \<in> set (attempts_of rest))"
        using True task Cons by (auto simp: attempting_def)
      have "distinct (attempts_of (fst (tasks sys ! i)))"
        using inv True by (simp add: dedup_inv_def)
      then have dist: "distinct (attempt_tag f @ attempts_of rest)"
        using task Cons by simp
      have uniq: "\<And>t j k. attempting sys j t \<Longrightarrow> attempting sys k t \<Longrightarrow> j = k"
        using inv by (auto simp: dedup_inv_def)
      have pend: "\<And>t. (t \<in> pending (lstate sys)) = (\<exists>j. attempting sys j t)"
        using inv by (auto simp: dedup_inv_def)
      have at: "\<And>j t. attempting ?sys' j t =
          (if j = i then t \<in> set (attempts_of fs') \<or> t \<in> set (attempts_of rest)
           else attempting sys j t)"
        using True l by (auto simp: attempting_def)
      have rest_pending: "\<And>t. t \<in> set (attempts_of rest) \<Longrightarrow>
          t \<in> pending (lstate sys) \<and> t \<notin> set (attempt_tag f)"
        using here pend dist by auto
      have other_pending: "\<And>t j. j \<noteq> i \<Longrightarrow> attempting sys j t \<Longrightarrow>
          t \<in> pending (lstate sys) \<and> t \<notin> set (attempt_tag f)"
        using here pend uniq by blast
      have a: "\<forall>t. (t \<in> pending (lstate ?sys')) = (\<exists>j. attempting ?sys' j t)"
      proof (intro allI iffI)
        fix t assume "t \<in> pending (lstate ?sys')"
        then consider "t \<in> set (attempts_of fs')"
          | "t \<in> pending (lstate sys)" "t \<notin> set (attempt_tag f)"
          using l ok by auto
        then show "\<exists>j. attempting ?sys' j t"
        proof cases
          case 1
          then show ?thesis using at [of i t] by auto
        next
          case 2
          then obtain j where j: "attempting sys j t" using pend by auto
          show ?thesis
          proof (cases "j = i")
            case True
            then have "t \<in> set (attempts_of rest)" using j here 2 by auto
            then show ?thesis using at [of i t] by auto
          next
            case False
            then show ?thesis using j at [of j t] by auto
          qed
        qed
      next
        fix t assume "\<exists>j. attempting ?sys' j t"
        then obtain j where j: "attempting ?sys' j t" by auto
        show "t \<in> pending (lstate ?sys')"
        proof (cases "j = i")
          case True
          then have "t \<in> set (attempts_of fs') \<or> t \<in> set (attempts_of rest)"
            using j at by auto
          then show ?thesis using l ok rest_pending by auto
        next
          case False
          then have "attempting sys j t" using j at by auto
          then show ?thesis using l ok other_pending [OF False] by auto
        qed
      qed
      have b: "\<forall>t j k. attempting ?sys' j t \<and> attempting ?sys' k t \<longrightarrow> j = k"
      proof (intro allI impI)
        fix t j k
        assume h: "attempting ?sys' j t \<and> attempting ?sys' k t"
        have new_only: "t \<in> set (attempts_of fs') \<Longrightarrow> m \<noteq> i \<Longrightarrow> \<not> attempting sys m t" for m
          using ok other_pending by blast
        show "j = k"
        proof (cases "j = i"; cases "k = i")
          assume "j = i" "k = i" then show ?thesis by simp
        next
          assume ji: "j = i" and ki: "k \<noteq> i"
          then have k: "attempting sys k t" using h at by auto
          have "t \<in> set (attempts_of fs') \<or> t \<in> set (attempts_of rest)"
            using h ji at by auto
          then show ?thesis
            using k ki new_only here uniq by blast
        next
          assume ji: "j \<noteq> i" and ki: "k = i"
          then have j: "attempting sys j t" using h at by auto
          have "t \<in> set (attempts_of fs') \<or> t \<in> set (attempts_of rest)"
            using h ki at by auto
          then show ?thesis
            using j ji new_only here uniq by blast
        next
          assume "j \<noteq> i" "k \<noteq> i"
          then show ?thesis using h at uniq by auto
        qed
      qed
      have c: "\<forall>j. j < length (tasks ?sys') \<longrightarrow> distinct (attempts_of (fst (tasks ?sys' ! j)))"
      proof (intro allI impI)
        fix j assume j: "j < length (tasks ?sys')"
        show "distinct (attempts_of (fst (tasks ?sys' ! j)))"
        proof (cases "j = i")
          case True
          have "set (attempts_of fs') \<inter> set (attempts_of rest) = {}"
            using ok rest_pending by blast
          then show ?thesis
            using True l j ok dist by auto
        next
          case False
          then show ?thesis
            using inv l j by (auto simp: dedup_inv_def)
        qed
      qed
      show ?thesis
        using a b c by (simp add: dedup_inv_def)
    qed
  qed
qed

lemma attempting_lstate [simp]: "attempting (sys\<lparr>lstate := s\<rparr>) i t = attempting sys i t"
  by (simp add: attempting_def)

lemma attempting_observer [simp]: "attempting (sys\<lparr>observer := b\<rparr>) i t = attempting sys i t"
  by (simp add: attempting_def)

lemma dedup_inv_observer [simp]: "dedup_inv (sys\<lparr>observer := b\<rparr>) = dedup_inv sys"
  by (simp add: dedup_inv_def)

lemma dedup_inv_exec: "dedup_inv sys \<Longrightarrow> dedup_inv (exec h a sys)"
proof (cases a)
  case Start
  assume "dedup_inv sys"
  then have "dedup_inv (spawn (scan_start h (document h)) sys)"
    using starts_ok_scan_start by (rule dedup_inv_spawn)
  then show ?thesis using Start by (simp add: Let_def)
next
  case Stop
  assume "dedup_inv sys"
  then show ?thesis using Stop by simp
next
  case (Scan root)
  assume "dedup_inv sys"
  then show ?thesis using Scan starts_ok_scan_start by (simp add: dedup_inv_spawn)
next
  case (Preload n res)
  assume "dedup_inv sys"
  then show ?thesis using Preload starts_ok_preload_start by (simp add: dedup_inv_spawn)
next
  case (Mutations ms)
  assume "dedup_inv sys"
  then show ?thesis using Mutations by (simp add: onMutations_flat dedup_inv_spawn_checks)
next
  case (Resume i)
  assume "dedup_inv sys"
  then show ?thesis using Resume by (simp add: dedup_inv_resume_task)
next
  case (DefineElsewhere n cls)
  assume "dedup_inv sys"
  then show ?thesis
    using DefineElsewhere
    by (auto simp: customElements_define_def dedup_inv_def split: sum.splits option.splits if_splits)
qed

lemma dedup_inv_run: "dedup_inv sys \<Longrightarrow> dedup_inv (run h acts sys)"
  unfolding run_def by (induction acts arbitrary: sys) (simp_all add: dedup_inv_exec)

lemma dedup_inv_new_loader: "dedup_inv (new_loader reg)"
  by (simp add: dedup_inv_def new_loader_def attempting_def)
subsection \<open>The life of the entries of the four collections\<close>

definition missing_module_resolution :: resolution where
  "missing_module_resolution =
     \<lparr>importFromUrl = Some (UrlString ''missing.js''), importFromTmpl = None, defineAs = None,
      exportName = None, waitForDefinition = False\<rparr>"

text \<open>
  A \<open>preload\<close> of \<open>my-x\<close> from a module that cannot be imported, run to its end: the tag
  is in \<open>failed\<close>.
\<close>

definition failed_preload :: "action list" where
  "failed_preload = [Preload ''my-x'' missing_module_resolution, Resume 0, Resume 0, Resume 0]"

lemma failed_preload_state:
  "failed (lstate (run demo_host failed_preload (new_loader []))) ''my-x'' = Some (JsError ''TypeError'') \<and>
   pending (lstate (run demo_host failed_preload (new_loader []))) = {} \<and>
   tasks (run demo_host failed_preload (new_loader [])) = [([], None)]"
  by (simp add: failed_preload_def missing_module_resolution_def demo_defs loader_defs syntax_defs)

text \<open>
  Claim C3, as amended. In every run of the loader, from any state: an entry of \<open>loaded\<close>
  or of \<open>skipped\<close> is never removed; an entry of \<open>failed\<close> is removed only where a new
  resolution attempt for its tag begins (\<open>applyResolution\<close> deletes it); an entry of
  \<open>pending\<close> is removed only where the attempt for its tag ends. In every state a new
  loader reaches, the tags in \<open>pending\<close> are exactly the tags with a resolution attempt
  under way, so a tag leaves \<open>pending\<close> exactly when its attempt completes.
\<close>

theorem entries_lifecycle:
  "loaded (lstate sys) \<subseteq> loaded (lstate (run h acts sys)) \<and>
   skipped (lstate sys) \<subseteq> skipped (lstate (run h acts sys)) \<and>
   (\<forall>t. failed (lstate sys) t \<noteq> None \<and> failed (lstate (run h acts sys)) t = None \<longrightarrow>
      AttemptBegin t \<in> snd ` set (new_events (lstate sys) (lstate (run h acts sys)))) \<and>
   (\<forall>t. t \<in> pending (lstate sys) \<and> t \<notin> pending (lstate (run h acts sys)) \<longrightarrow>
      AttemptEnd t \<in> snd ` set (new_events (lstate sys) (lstate (run h acts sys)))) \<and>
   (\<forall>t. (t \<in> pending (lstate (run h acts (new_loader reg)))) =
      (\<exists>i. attempting (run h acts (new_loader reg)) i t))"
proof -
  have "step_rel (lstate sys) (lstate (run h acts sys))"
    by (rule step_rel_run)
  moreover have "dedup_inv (run h acts (new_loader reg))"
    using dedup_inv_new_loader by (rule dedup_inv_run)
  ultimately show ?thesis
    unfolding step_rel_def dedup_inv_def by blast
qed

theorem entries_lifecycle_witness:
  "''my-x'' \<in> loaded (lstate (run demo_host [Preload ''my-x'' card_resolution, Preload ''DIV'' card_resolution]
      (run demo_host [Preload ''my-x'' card_resolution] (new_loader [])))) \<and>
   AttemptBegin ''my-x'' \<in> snd ` set (new_events
      (lstate (run demo_host failed_preload (new_loader [])))
      (lstate (run demo_host [Preload ''my-x'' card_resolution]
         (run demo_host failed_preload (new_loader [])))))"
proof -
  have a: "''my-x'' \<in> loaded (lstate (run demo_host [Preload ''my-x'' card_resolution] (new_loader [])))"
    by (simp add: demo_defs loader_defs syntax_defs)
  have b: "failed (lstate (run demo_host [Preload ''my-x'' card_resolution]
         (run demo_host failed_preload (new_loader [])))) ''my-x'' = None"
    by (simp add: failed_preload_def missing_module_resolution_def demo_defs loader_defs syntax_defs)
  show ?thesis
    using a b failed_preload_state
      entries_lifecycle [of "run demo_host [Preload ''my-x'' card_resolution] (new_loader [])"
        demo_host "[Preload ''my-x'' card_resolution, Preload ''DIV'' card_resolution]" "[]"]
      entries_lifecycle [of "run demo_host failed_preload (new_loader [])"
        demo_host "[Preload ''my-x'' card_resolution]" "[]"]
    by blast
qed

text \<open>
  The claim as it was stated fails: \<open>my-x\<close> is in \<open>failed\<close> after the first \<open>preload\<close>, and
  a second \<open>preload\<close> of the same tag removes the entry.
\<close>

theorem failed_entry_removed_counterexample:
  "failed (lstate (run demo_host failed_preload (new_loader []))) ''my-x'' = Some (JsError ''TypeError'') \<and>
   failed (lstate (run demo_host (failed_preload @ [Preload ''my-x'' card_resolution]) (new_loader [])))
     ''my-x'' = None"
  by (simp add: failed_preload_def missing_module_resolution_def demo_defs loader_defs syntax_defs)

subsection \<open>Where a throw is caught\<close>





























subsection \<open>No exception leaves a call of the loader\<close>


















subsection \<open>A soft failure that ends in \<open>failed\<close>\<close>

definition waiting_missing_template :: resolution where
  "waiting_missing_template =
     \<lparr>importFromUrl = None, importFromTmpl = Some ''no-such-template'', defineAs = None,
      exportName = None, waitForDefinition = True\<rparr>"

text \<open>
  Claim C2 at a failing input. The resolution names a template that does not exist and asks
  to wait for the definition; the tag is \<open>font-face\<close>, which passes the syntax check of the
  loader and which the registry refuses. \<open>defineFromTemplate\<close> logs the warning and adds
  the tag to \<open>skipped\<close>; \<open>applyResolution\<close> then awaits \<open>whenDefined\<close>, which rejects, and
  its \<open>catch\<close> block records the tag in \<open>failed\<close>.
\<close>

theorem missing_template_ends_failed:
  "''font-face'' \<in> skipped (lstate (run demo_host
      [Preload ''font-face'' waiting_missing_template, Resume 0] (new_loader []))) \<and>
   failed (lstate (run demo_host
      [Preload ''font-face'' waiting_missing_template, Resume 0] (new_loader []))) ''font-face''
     = Some (JsError ''SyntaxError'') \<and>
   logs (lstate (run demo_host
      [Preload ''font-face'' waiting_missing_template, Resume 0] (new_loader []))) =
     [(Warn, ''Template resolution requested but template not found'', ''font-face''),
      (Error, ''Failed to resolve/import/define custom element'', ''font-face'')]"
  by (simp add: waiting_missing_template_def demo_defs loader_defs syntax_defs)

text \<open>
  With a tag that the registry accepts, the same resolution never completes: the call
  stays at \<open>whenDefined\<close> and the tag stays in \<open>pending\<close> (and in \<open>skipped\<close>), however
  often the call is given the chance to continue, until some other code defines the tag.
\<close>

lemma waiting_forever_step:
  "exec demo_host (Resume 0) (exec demo_host (Preload ''my-y'' waiting_missing_template) (new_loader []))
     = exec demo_host (Preload ''my-y'' waiting_missing_template) (new_loader [])"
  by (simp add: waiting_missing_template_def demo_defs loader_defs syntax_defs)

lemma run_Cons: "run h (a # acts) sys = run h acts (exec h a sys)"
  by (simp add: run_def)

lemma run_replicate_fix: "exec h a sys = sys \<Longrightarrow> run h (replicate n a) sys = sys"
  by (induction n) (simp_all add: run_def)

lemma waiting_forever:
  "run demo_host (Preload ''my-y'' waiting_missing_template # replicate n (Resume 0)) (new_loader [])
     = exec demo_host (Preload ''my-y'' waiting_missing_template) (new_loader [])"
  by (simp only: run_Cons run_replicate_fix [OF waiting_forever_step])

lemma waiting_forever_state:
  "pending (lstate (run demo_host
      (Preload ''my-y'' waiting_missing_template # replicate n (Resume 0)) (new_loader []))) = {''my-y''} \<and>
   skipped (lstate (run demo_host
      (Preload ''my-y'' waiting_missing_template # replicate n (Resume 0)) (new_loader []))) = {''my-y''} \<and>
   tasks (run demo_host
      (Preload ''my-y'' waiting_missing_template # replicate n (Resume 0)) (new_loader [])) =
     [([ApplyResolution_whenDefined ''my-y'' ''my-y'', Preload_applyResolution], None)]"
  unfolding waiting_forever
  by (simp add: waiting_missing_template_def demo_defs loader_defs syntax_defs)

end
